theory Spec2Isabelle
  imports Main "HOL-Library.Sublist"
begin

section \<open>Strings\<close>

text \<open>
  The converter of \<^verbatim>\<open>src/convert.py\<close> works on Python strings, which are sequences of
  Unicode code points. A code point is a natural number here, a string a list of them;
  \<open>str\<close> turns a literal of the theory into such a string (its characters are ASCII
  throughout this development).
\<close>

type_synonym ustring = "nat list"

definition str :: "string \<Rightarrow> ustring" where
  "str s = map of_char s"

text \<open>
  \<^verbatim>\<open>text.count(sub)\<close>: the number of non-overlapping occurrences of \<open>sub\<close>, found from
  the left; the empty string occurs \<open>len(text) + 1\<close> times.
\<close>

function count_str :: "'a list \<Rightarrow> 'a list \<Rightarrow> nat" where
  "count_str text sub =
     (if sub = [] then length text + 1
      else if text = [] then 0
      else if prefix sub text then 1 + count_str (drop (length sub) text) sub
      else count_str (tl text) sub)"
  by pat_completeness auto
termination
  by (relation "measure (\<lambda>(text, sub). length text)") auto

declare count_str.simps [simp del]

text \<open>
  \<^verbatim>\<open>s.replace(old, new)\<close>: every non-overlapping occurrence of \<open>old\<close>, found from the
  left, is replaced; an empty \<open>old\<close> puts \<open>new\<close> before every character and at the end.
\<close>

function replace_str :: "'a list \<Rightarrow> 'a list \<Rightarrow> 'a list \<Rightarrow> 'a list" where
  "replace_str s old new =
     (if old = [] then (case s of [] \<Rightarrow> new | c # cs \<Rightarrow> new @ c # replace_str cs old new)
      else if s = [] then []
      else if prefix old s then new @ replace_str (drop (length old) s) old new
      else hd s # replace_str (tl s) old new)"
  by pat_completeness auto
termination
  by (relation "measure (\<lambda>(s, old, new). length s)") auto

declare replace_str.simps [simp del]

text \<open>\<^verbatim>\<open>sub in s\<close>: \<open>sub\<close> occurs in \<open>s\<close> as a contiguous run.\<close>

fun contains_str :: "'a list \<Rightarrow> 'a list \<Rightarrow> bool" where
  "contains_str [] sub = (sub = [])"
| "contains_str (c # cs) sub = (prefix sub (c # cs) \<or> contains_str cs sub)"

text \<open>
  \<^verbatim>\<open>s.lstrip(chars)\<close>, \<^verbatim>\<open>s.rstrip(chars)\<close>, \<^verbatim>\<open>s.strip(chars)\<close>, with the set of
  characters to remove given as a predicate.
\<close>

definition lstrip_by :: "('a \<Rightarrow> bool) \<Rightarrow> 'a list \<Rightarrow> 'a list" where
  "lstrip_by P s = dropWhile P s"

definition rstrip_by :: "('a \<Rightarrow> bool) \<Rightarrow> 'a list \<Rightarrow> 'a list" where
  "rstrip_by P s = rev (dropWhile P (rev s))"

definition strip_by :: "('a \<Rightarrow> bool) \<Rightarrow> 'a list \<Rightarrow> 'a list" where
  "strip_by P s = rstrip_by P (lstrip_by P s)"

text \<open>
  White space, as \<^verbatim>\<open>str.strip()\<close> without argument, \<^verbatim>\<open>str.isspace\<close> and the
  classes \<^verbatim>\<open>\s\<close> and \<^verbatim>\<open>\S\<close> of \<^verbatim>\<open>re\<close> know it: the 29 code points for which
  CPython's \<^verbatim>\<open>Py_UNICODE_ISSPACE\<close> holds.
\<close>

definition isspace :: "nat \<Rightarrow> bool" where
  "isspace c \<longleftrightarrow>
     (9 \<le> c \<and> c \<le> 13) \<or> (28 \<le> c \<and> c \<le> 32) \<or> c = 0x85 \<or> c = 0xA0 \<or> c = 0x1680
     \<or> (0x2000 \<le> c \<and> c \<le> 0x200A) \<or> c = 0x2028 \<or> c = 0x2029 \<or> c = 0x202F
     \<or> c = 0x205F \<or> c = 0x3000"

definition strip_ws :: "ustring \<Rightarrow> ustring" where
  "strip_ws s = strip_by isspace s"

section \<open>What the converter takes from outside\<close>

text \<open>
  The repository holds neither the transliteration (\<^verbatim>\<open>ACIPtoEWTS\<close> of the module
  \<^verbatim>\<open>ACIP\<close>, \<^verbatim>\<open>toUnicode\<close> of \<^verbatim>\<open>pyewts\<close>), nor the XML parsers behind
  \<^verbatim>\<open>is_valid_xml\<close>, nor the Unicode tables behind \<^verbatim>\<open>str.isalpha\<close>, \<^verbatim>\<open>str.lower\<close>
  and the class \<^verbatim>\<open>\d\<close>. They are parameters of the model, collected in one record.
  On ASCII the three Unicode tables are fixed below; the record only answers for code
  points from 128 on (\<open>lower_ext\<close> for strings that hold one).
\<close>

record env =
  ACIPtoEWTS :: "ustring \<Rightarrow> ustring"
  toUnicode :: "ustring \<Rightarrow> ustring"
  xml_parses :: "ustring \<Rightarrow> bool"
  isalpha_ext :: "nat \<Rightarrow> bool"
  isdigit_ext :: "nat \<Rightarrow> bool"
  lower_ext :: "ustring \<Rightarrow> ustring"

definition isalpha :: "env \<Rightarrow> nat \<Rightarrow> bool" where
  "isalpha E c \<longleftrightarrow>
     (65 \<le> c \<and> c \<le> 90) \<or> (97 \<le> c \<and> c \<le> 122) \<or> (128 \<le> c \<and> isalpha_ext E c)"

definition isdigit :: "env \<Rightarrow> nat \<Rightarrow> bool" where
  "isdigit E c \<longleftrightarrow> (48 \<le> c \<and> c \<le> 57) \<or> (128 \<le> c \<and> isdigit_ext E c)"

definition lower_ascii :: "nat \<Rightarrow> nat" where
  "lower_ascii c = (if 65 \<le> c \<and> c \<le> 90 then c + 32 else c)"

definition lower :: "env \<Rightarrow> ustring \<Rightarrow> ustring" where
  "lower E s = (if list_all (\<lambda>c. c < 128) s then map lower_ascii s else lower_ext E s)"

text \<open>
  \<^verbatim>\<open>xml.sax.saxutils.escape(data)\<close> with no further entities: the ampersand first, then
  the two angle brackets.
\<close>

definition escape :: "ustring \<Rightarrow> ustring" where
  "escape data =
     (let data = replace_str data (str ''&'') (str ''&amp;'');
          data = replace_str data (str ''>'') (str ''&gt;'');
          data = replace_str data (str ''<'') (str ''&lt;'')
      in data)"

text \<open>
  \<^verbatim>\<open>
  def is_valid_xml(xml_string):
      try:
          root = ET.fromstring(xml_string)
          parsed_xml = minidom.parseString(ET.tostring(root, encoding='unicode'))
          return True
      except Exception as e:
          return False
  \<close>
  Every exception of the two parsers is caught, so the function is a total predicate;
  which strings it accepts is the parsers' business.
\<close>

definition is_valid_xml :: "env \<Rightarrow> ustring \<Rightarrow> bool" where
  "is_valid_xml E xml_string = xml_parses E xml_string"

section \<open>Sanitizer\<close>

text \<open>
  \<^verbatim>\<open>
  def sanitize_str(s):
      s = re.sub(r'[^\x09\x0A\x0D\x20-\x7E]', '', s)
      s = s.replace('\r\n', '\n').replace('\r', '\n')
      s = re.sub(r'\n +', '\n', s)
      s = re.sub(r'  +', ' ', s)
      return s
  \<close>
  The first substitution deletes single characters, so it is a filter. The other two
  scan from the left; where a match starts they take the whole run of spaces (\<open>+\<close> is
  greedy) and go on behind it.
\<close>

definition sanitize_keep :: "nat \<Rightarrow> bool" where
  "sanitize_keep c \<longleftrightarrow> c = 9 \<or> c = 10 \<or> c = 13 \<or> (32 \<le> c \<and> c \<le> 126)"

function sub_newline_spaces :: "ustring \<Rightarrow> ustring" where
  "sub_newline_spaces [] = []"
| "sub_newline_spaces (c # cs) =
     (if c = 10 \<and> cs \<noteq> [] \<and> hd cs = 32
      then 10 # sub_newline_spaces (dropWhile (\<lambda>x. x = 32) cs)
      else c # sub_newline_spaces cs)"
  by pat_completeness auto
termination
  by (relation "measure length") (auto simp: less_Suc_eq_le length_dropWhile_le)

function sub_space_runs :: "ustring \<Rightarrow> ustring" where
  "sub_space_runs [] = []"
| "sub_space_runs (c # cs) =
     (if c = 32 \<and> cs \<noteq> [] \<and> hd cs = 32
      then 32 # sub_space_runs (dropWhile (\<lambda>x. x = 32) cs)
      else c # sub_space_runs cs)"
  by pat_completeness auto
termination
  by (relation "measure length") (auto simp: less_Suc_eq_le length_dropWhile_le)

definition sanitize_str :: "ustring \<Rightarrow> ustring" where
  "sanitize_str s =
     (let s = filter sanitize_keep s;
          s = replace_str (replace_str s [13, 10] [10]) [13] [10];
          s = sub_newline_spaces s;
          s = sub_space_runs s
      in s)"

text \<open>What the last two steps establish: no space behind a newline, no two spaces in a row.\<close>

fun no_nl_sp :: "ustring \<Rightarrow> bool" where
  "no_nl_sp (c # d # cs) = (\<not> (c = 10 \<and> d = 32) \<and> no_nl_sp (d # cs))"
| "no_nl_sp _ = True"

fun no_dbl_sp :: "ustring \<Rightarrow> bool" where
  "no_dbl_sp (c # d # cs) = (\<not> (c = 32 \<and> d = 32) \<and> no_dbl_sp (d # cs))"
| "no_dbl_sp _ = True"

section \<open>Bracket balancing\<close>

text \<open>
  \<^verbatim>\<open>
  def balance_parentheses(text, c1, c2):
      open_count = text.count(c1)
      close_count = text.count(c2)
      if open_count > close_count:
          text += c1 * (open_count - close_count)
      elif close_count > open_count:
          text = c2 * (close_count - open_count) + text
      return text
  \<close>
  The arguments \<open>c1\<close> and \<open>c2\<close> are strings; both callers pass one-character strings.
\<close>

definition balance_parentheses :: "'a list \<Rightarrow> 'a list \<Rightarrow> 'a list \<Rightarrow> 'a list" where
  "balance_parentheses text c1 c2 =
     (let open_count = count_str text c1;
          close_count = count_str text c2
      in if open_count > close_count
         then text @ concat (replicate (open_count - close_count) c1)
         else if close_count > open_count
         then concat (replicate (close_count - open_count) c2) @ text
         else text)"

section \<open>Regular-expression scanning\<close>

text \<open>
  \<^verbatim>\<open>re.sub\<close> and \<^verbatim>\<open>re.split\<close> scan the string from the left. At each position the
  pattern is tried; where it matches, the match is consumed and the scan goes on behind
  it; where it does not, one character is passed over. A matcher is a function that
  tries one pattern at the start of a string and, on success, returns what the match
  contributes (its replacement for \<open>re_sub\<close>, the matched text for \<open>re_split\<close>) with the
  text behind the match. No pattern of the converter matches the empty string, so the
  text behind is always shorter, and the test of this in the two scanners never fails
  for the matchers below (section \<open>Matches are never empty\<close>).
\<close>

type_synonym matcher = "ustring \<Rightarrow> (ustring \<times> ustring) option"

function re_sub :: "matcher \<Rightarrow> ustring \<Rightarrow> ustring" where
  "re_sub m [] = []"
| "re_sub m (c # cs) =
     (case m (c # cs) of
        Some (r, rest) \<Rightarrow>
          if length rest < length (c # cs) then r @ re_sub m rest else c # re_sub m cs
      | None \<Rightarrow> c # re_sub m cs)"
  by pat_completeness auto
termination
  by (relation "measure (\<lambda>(m, s). length s)") auto

text \<open>
  \<^verbatim>\<open>re.split\<close> with a pattern that is one capture group: the texts between the matches
  alternate with the matches, beginning and ending with a text (possibly empty).
\<close>

function re_split :: "matcher \<Rightarrow> ustring \<Rightarrow> ustring \<Rightarrow> ustring list" where
  "re_split m cur [] = [cur]"
| "re_split m cur (c # cs) =
     (case m (c # cs) of
        Some (g, rest) \<Rightarrow>
          if length rest < length (c # cs) then cur # g # re_split m [] rest
          else re_split m (cur @ [c]) cs
      | None \<Rightarrow> re_split m (cur @ [c]) cs)"
  by pat_completeness auto
termination
  by (relation "measure (\<lambda>(m, cur, s). length s)") auto

text \<open>
  A bracketed group \<^verbatim>\<open>([^X]+)X\<close> behind an opener that is already consumed: the longest
  run of characters other than \<open>X\<close>, which must not be empty and must be followed by
  \<open>X\<close>. A shorter run cannot help, the character behind it is not \<open>X\<close>.
\<close>

definition group_until :: "nat \<Rightarrow> ustring \<Rightarrow> (ustring \<times> ustring) option" where
  "group_until x s =
     (let inner = takeWhile (\<lambda>c. c \<noteq> x) s; rest = dropWhile (\<lambda>c. c \<noteq> x) s
      in if inner \<noteq> [] \<and> rest \<noteq> [] then Some (inner, tl rest) else None)"

section \<open>Transliteration adapter\<close>

text \<open>
  \<^verbatim>\<open>
  def ACIP_transform(s, last_is_shad=False):
      s = ACIPtoEWTS(s)
      startswithspace = s.startswith(" ")
      s = converter.toUnicode(s)
      s = s.replace("\u0f44\u0f0d", "\u0f44\u0f0b\u0f0d")
      if startswithspace:
          s = ('\u0f0b' if not last_is_shad else ' ')+s
      return s
  \<close>
  (the source writes the three Tibetan characters themselves, shown here by their
  escapes: nga U+0F44, shad U+0F0D, tsheg U+0F0B).
\<close>

definition ACIP_transform :: "env \<Rightarrow> ustring \<Rightarrow> bool \<Rightarrow> ustring" where
  "ACIP_transform E s last_is_shad =
     (let s = ACIPtoEWTS E s;
          startswithspace = prefix [32] s;
          s = toUnicode E s;
          s = replace_str s [0x0F44, 0x0F0D] [0x0F44, 0x0F0B, 0x0F0D]
      in if startswithspace then (if \<not> last_is_shad then [0x0F0B] else [32]) @ s else s)"

section \<open>Tag-aware transliteration\<close>

text \<open>
  \<^verbatim>\<open>
  def convert_text_components(text):
      tag_pattern = re.compile(r'(<[^>]+>)')
      def should_skip_tag(tag):
          return 'xml:lang="en"' in tag
      parts = tag_pattern.split(text)
      result = []
      skip = False
      last_is_shad = False
      for part in parts:
          if tag_pattern.match(part):  # It's a tag
              result.append(part)
              skip = should_skip_tag(part)
          else:  # It's text
              r = part if skip else ACIP_transform(part, last_is_shad)
              if last_is_shad:
                  r = ' '+r
              last_is_shad = not skip and len(part) and part[-1] in [',', '`', '`', ';']
              r = saxutils.escape(r)
              result.append(r)
      return ''.join(result)
  \<close>
\<close>

definition tag_pattern :: matcher where
  "tag_pattern s =
     (case s of
        [] \<Rightarrow> None
      | c # cs \<Rightarrow>
          if c = 60 then
            (case group_until 62 cs of
               Some (inner, rest) \<Rightarrow> Some (60 # inner @ [62], rest)
             | None \<Rightarrow> None)
          else None)"

definition should_skip_tag :: "ustring \<Rightarrow> bool" where
  \<open>should_skip_tag tag = contains_str tag (str ''xml:lang="en"'')\<close>

definition ends_in_shad :: "ustring \<Rightarrow> bool" where
  "ends_in_shad part \<longleftrightarrow> part \<noteq> [] \<and> last part \<in> {44, 96, 96, 59}"

text \<open>The loop over the parts; the state is \<open>skip\<close> and \<open>last_is_shad\<close>, the result the
  list of the pieces appended.\<close>

fun convert_parts :: "env \<Rightarrow> bool \<Rightarrow> bool \<Rightarrow> ustring list \<Rightarrow> ustring list" where
  "convert_parts E skip last_is_shad [] = []"
| "convert_parts E skip last_is_shad (part # parts) =
     (if tag_pattern part \<noteq> None
      then part # convert_parts E (should_skip_tag part) last_is_shad parts
      else
        let r = (if skip then part else ACIP_transform E part last_is_shad);
            r = (if last_is_shad then 32 # r else r)
        in escape r # convert_parts E skip (\<not> skip \<and> ends_in_shad part) parts)"

definition convert_text_components :: "env \<Rightarrow> ustring \<Rightarrow> ustring" where
  "convert_text_components E text =
     concat (convert_parts E False False (re_split tag_pattern [] text))"

text \<open>The value of \<open>last_is_shad\<close> when the loop has gone through \<open>parts\<close>.\<close>

fun shad_after :: "bool \<Rightarrow> bool \<Rightarrow> ustring list \<Rightarrow> bool" where
  "shad_after skip last_is_shad [] = last_is_shad"
| "shad_after skip last_is_shad (part # parts) =
     (if tag_pattern part \<noteq> None
      then shad_after (should_skip_tag part) last_is_shad parts
      else shad_after skip (\<not> skip \<and> ends_in_shad part) parts)"

section \<open>Paragraph annotation transformer\<close>

text \<open>
  The rewrite rules of \<^verbatim>\<open>convert_line\<close>, each as the matcher of its pattern together
  with its replacement.

  \<^verbatim>\<open>
  def replace_parentheses(match):
      if not match.group(1):
          return ''
      return f'<hi rend="small">{match.group(1)}</hi>'
  line_str = re.sub(r'\(([^)]*)\)', replace_parentheses, line_str, flags=re.DOTALL)
  \<close>
\<close>

definition replace_parentheses :: "ustring \<Rightarrow> ustring" where
  \<open>replace_parentheses group1 =
     (if group1 = [] then [] else str ''<hi rend="small">'' @ group1 @ str ''</hi>'')\<close>

definition paren_pattern :: matcher where
  "paren_pattern s =
     (case s of
        [] \<Rightarrow> None
      | c # cs \<Rightarrow>
          if c = 40 then
            (let inner = takeWhile (\<lambda>x. x \<noteq> 41) cs; rest = dropWhile (\<lambda>x. x \<noteq> 41) cs
             in if rest \<noteq> [] then Some (replace_parentheses inner, tl rest) else None)
          else None)"

text \<open>
  \<^verbatim>\<open>
  line_str = re.sub(r'\[#(.*?)\]', r'<note type="editorial" xml:lang="en">\1</note>', line_str)
  \<close>
  The dot does not match a newline, and the group is lazy: it ends at the first
  \<open>]\<close>, which must come before any newline.
\<close>

definition note_open :: ustring where
  \<open>note_open = str ''<note type="editorial" xml:lang="en">''\<close>

definition note_close :: ustring where
  "note_close = str ''</note>''"

definition editorial_pattern :: matcher where
  "editorial_pattern s =
     (if prefix (str ''[#'') s then
        (let s1 = drop 2 s;
             inner = takeWhile (\<lambda>x. x \<noteq> 93 \<and> x \<noteq> 10) s1;
             rest = dropWhile (\<lambda>x. x \<noteq> 93 \<and> x \<noteq> 10) s1
         in if rest \<noteq> [] \<and> hd rest = 93
            then Some (note_open @ inner @ note_close, tl rest) else None)
      else None)"

text \<open>
  \<^verbatim>\<open>
  line_str = re.sub(r'\[DD\d?\] ?([^[]+)', r'<figure><head>\1</head></figure>', line_str)
  \<close>
  A digit behind \<open>[DD\<close> is taken when there is one (giving it back cannot help: it is
  not \<open>]\<close>). The space behind \<open>]\<close> is taken when there is one, and given back when the
  group would otherwise be empty; the group then is that space.
\<close>

definition figure_pattern :: "env \<Rightarrow> matcher" where
  "figure_pattern E s =
     (if prefix (str ''[DD'') s then
        (let s1 = drop 3 s;
             s2 = (if s1 \<noteq> [] \<and> isdigit E (hd s1) then tl s1 else s1)
         in if s2 \<noteq> [] \<and> hd s2 = 93 then
              (let s3 = tl s2;
                   s4 = (if s3 \<noteq> [] \<and> hd s3 = 32 \<and> tl s3 \<noteq> [] \<and> hd (tl s3) \<noteq> 91
                         then tl s3 else s3)
               in if s4 \<noteq> [] \<and> hd s4 \<noteq> 91
                  then Some (str ''<figure><head>'' @ takeWhile (\<lambda>x. x \<noteq> 91) s4
                               @ str ''</head></figure>'',
                             dropWhile (\<lambda>x. x \<noteq> 91) s4)
                  else None)
            else None)
      else None)"

text \<open>
  \<^verbatim>\<open>
  def replace_variant(match):
      orig = match.group(1).strip()
      corr = match.group(2).strip()
      corr = corr.lstrip('*')
      cert_attr = ' cert="low"' if corr.endswith('?') else ''
      corr = corr.rstrip('?')
      return f'<choice><orig>{orig}</orig><corr{cert_attr}>{corr}</corr></choice>'
  line_str = re.sub(r'(?:^|\s+)(\S+)\s*\[([^\]]+)\]', replace_variant, line_str)
  \<close>
\<close>

definition replace_variant :: "ustring \<Rightarrow> ustring \<Rightarrow> ustring" where
  \<open>replace_variant group1 group2 =
     (let orig = strip_ws group1;
          corr = strip_ws group2;
          corr = lstrip_by (\<lambda>c. c = 42) corr;
          cert_attr = (if corr \<noteq> [] \<and> last corr = 63 then str '' cert="low"'' else []);
          corr = rstrip_by (\<lambda>c. c = 63) corr
      in str ''<choice><orig>'' @ orig @ str ''</orig><corr'' @ cert_attr @ str ''>'' @ corr
           @ str ''</corr></choice>'')\<close>

text \<open>
  The part \<^verbatim>\<open>(\S+)\s*\[([^\]]+)\]\<close> of the pattern, tried at the start of \<open>p\<close>. The
  first group is greedy: it takes the whole run of non-blank characters, then the
  blanks, and needs \<open>[\<close> there. When that fails (or the bracket has no content or no
  end), the group gives back characters one by one; it can stop only in front of a
  \<open>[\<close> of the run, and tries the last such bracket first (\<open>variant_give_back\<close>, with
  \<open>k\<close> the length the group keeps).
\<close>

definition variant_at :: "nat \<Rightarrow> ustring \<Rightarrow> (ustring \<times> ustring) option" where
  "variant_at k p =
     (if k < length p \<and> p ! k = 91 then
        (case group_until 93 (drop (Suc k) p) of
           Some (group2, rest) \<Rightarrow> Some (replace_variant (take k p) group2, rest)
         | None \<Rightarrow> None)
      else None)"

fun variant_give_back :: "nat \<Rightarrow> ustring \<Rightarrow> (ustring \<times> ustring) option" where
  "variant_give_back 0 p = None"
| "variant_give_back (Suc k) p =
     (case variant_at (Suc k) p of
        Some r \<Rightarrow> Some r
      | None \<Rightarrow> variant_give_back k p)"

definition variant_core :: matcher where
  "variant_core p =
     (let run = takeWhile (\<lambda>c. \<not> isspace c) p;
          q = dropWhile isspace (dropWhile (\<lambda>c. \<not> isspace c) p)
      in if run = [] then None
         else
           (case (if q \<noteq> [] \<and> hd q = 91 then group_until 93 (tl q) else None) of
              Some (group2, rest) \<Rightarrow> Some (replace_variant run group2, rest)
            | None \<Rightarrow> variant_give_back (length run - 1) p))"

text \<open>
  The whole pattern: \<^verbatim>\<open>^\<close> holds at the first position of the string only; the other
  alternative takes the whole run of blanks (with fewer, the first group would have to
  start with a blank).
\<close>

definition variant_pattern :: "bool \<Rightarrow> matcher" where
  "variant_pattern at_start s =
     (case (if at_start then variant_core s else None) of
        Some r \<Rightarrow> Some r
      | None \<Rightarrow>
          if s \<noteq> [] \<and> isspace (hd s) then variant_core (dropWhile isspace s) else None)"

definition sub_variant :: "ustring \<Rightarrow> ustring" where
  "sub_variant s =
     (case s of
        [] \<Rightarrow> []
      | c # cs \<Rightarrow>
          (case variant_pattern True s of
             Some (r, rest) \<Rightarrow>
               if length rest < length s then r @ re_sub (variant_pattern False) rest
               else c # re_sub (variant_pattern False) cs
           | None \<Rightarrow> c # re_sub (variant_pattern False) cs))"

text \<open>
  \<^verbatim>\<open>
  def replace_unclear(match):
      text = match.group(1).strip()
      if text == '?':
          return '<gap reason="illegible" unit="syllable" quantity="1"/>'
      tlower = text.lower()
      if "page" in tlower or "text" in tlower or "missing "in tlower:
          return '<note type="editorial" xml:lang="en">'+saxutils.escape(text.strip(" #!*[]()&"))+'</note>'
      text = text.rstrip('?')
      return f'<unclear reason="illegible" cert="low">{text}</unclear>'
  line_str = re.sub(r'\[([^\]]+)\]', replace_unclear, line_str)
  \<close>
\<close>

definition gap :: ustring where
  \<open>gap = str ''<gap reason="illegible" unit="syllable" quantity="1"/>''\<close>

definition replace_unclear :: "env \<Rightarrow> ustring \<Rightarrow> ustring" where
  \<open>replace_unclear E group1 =
     (let text = strip_ws group1
      in if text = str ''?'' then gap
         else
           let tlower = lower E text
           in if contains_str tlower (str ''page'') \<or> contains_str tlower (str ''text'')
                 \<or> contains_str tlower (str ''missing '')
              then note_open @ escape (strip_by (\<lambda>c. c \<in> set (str '' #!*[]()&'')) text)
                     @ note_close
              else str ''<unclear reason="illegible" cert="low">''
                     @ rstrip_by (\<lambda>c. c = 63) text @ str ''</unclear>'')\<close>

definition unclear_pattern :: "env \<Rightarrow> matcher" where
  "unclear_pattern E s =
     (case s of
        [] \<Rightarrow> None
      | c # cs \<Rightarrow>
          if c = 91 then
            (case group_until 93 cs of
               Some (group1, rest) \<Rightarrow> Some (replace_unclear E group1, rest)
             | None \<Rightarrow> None)
          else None)"

text \<open>
  \<^verbatim>\<open>
  def convert_line(line_str, variant_mode=0):
      line_str = line_str.strip(" \t\n\r")
      if line_str and (line_str[-1].isalpha() or line_str[-1] == "'"):
          line_str += ' '
      original_line_str = line_str
      line_str = balance_parentheses(line_str, '[', ']')
      line_str = '<lb/>'+line_str
      line_str = line_str.replace('[?]', '<gap reason="illegible" unit="syllable" quantity="1"/>')
      line_str = re.sub(r'\(([^)]*)\)', replace_parentheses, line_str, flags=re.DOTALL)
      line_str = re.sub(r'\[#(.*?)\]', r'<note type="editorial" xml:lang="en">\1</note>', line_str)
      line_str = line_str.replace("[LL]", '<note type="editorial" xml:lang="en">Landza script on page</note>')
      line_str = line_str.replace("[DR]", '<note type="editorial" xml:lang="en">picture on page</note>')
      line_str = line_str.replace('{DD}', '<note type="editorial" xml:lang="en">picture on page</note>')
      line_str = re.sub(r'\[DD\d?\] ?([^[]+)', r'<figure><head>\1</head></figure>', line_str)
      if variant_mode == 1:
          line_str = re.sub(r'(?:^|\s+)(\S+)\s*\[([^\]]+)\]', replace_variant, line_str)
      else:
          line_str = re.sub(r'\[([^\]]+)\]', replace_unclear, line_str)
      line_str = convert_text_components(line_str)
      if not is_valid_xml("<p>"+line_str+"</p>"):
          line_str = ACIP_transform(original_line_str).strip()
          line_str = saxutils.escape(line_str)
          return line_str
      return line_str.strip()
  \<close>
  The function is split where the properties below need it: \<open>prepare_line\<close> gives
  \<^verbatim>\<open>original_line_str\<close>, \<open>annotate_line\<close> the string handed to
  \<^verbatim>\<open>convert_text_components\<close>, \<open>markup_line\<close> the candidate handed to the validator.
\<close>

definition prepare_line :: "env \<Rightarrow> ustring \<Rightarrow> ustring" where
  "prepare_line E line_str =
     (let line_str = strip_by (\<lambda>c. c \<in> {32, 9, 10, 13}) line_str
      in if line_str \<noteq> [] \<and> (isalpha E (last line_str) \<or> last line_str = 39)
         then line_str @ [32] else line_str)"

definition annotate_line :: "env \<Rightarrow> ustring \<Rightarrow> int \<Rightarrow> ustring" where
  "annotate_line E original_line_str variant_mode =
     (let line_str = balance_parentheses original_line_str (str ''['') (str '']'');
          line_str = str ''<lb/>'' @ line_str;
          line_str = replace_str line_str (str ''[?]'') gap;
          line_str = re_sub paren_pattern line_str;
          line_str = re_sub editorial_pattern line_str;
          line_str = replace_str line_str (str ''[LL]'')
                       (note_open @ str ''Landza script on page'' @ note_close);
          line_str = replace_str line_str (str ''[DR]'')
                       (note_open @ str ''picture on page'' @ note_close);
          line_str = replace_str line_str (str ''{DD}'')
                       (note_open @ str ''picture on page'' @ note_close);
          line_str = re_sub (figure_pattern E) line_str
      in if variant_mode = 1 then sub_variant line_str
         else re_sub (unclear_pattern E) line_str)"

definition markup_line :: "env \<Rightarrow> ustring \<Rightarrow> int \<Rightarrow> ustring" where
  "markup_line E original_line_str variant_mode =
     convert_text_components E (annotate_line E original_line_str variant_mode)"

definition convert_line :: "env \<Rightarrow> ustring \<Rightarrow> int \<Rightarrow> ustring" where
  "convert_line E line_str variant_mode =
     (let original_line_str = prepare_line E line_str;
          line_str = markup_line E original_line_str variant_mode
      in if \<not> is_valid_xml E (str ''<p>'' @ line_str @ str ''</p>'')
         then escape (strip_ws (ACIP_transform E original_line_str False))
         else strip_ws line_str)"

section \<open>Structural parser\<close>

text \<open>
  \<^verbatim>\<open>
  def clean_page_number(page_num):
      """Remove leading zeros from page number."""
      if page_num is None:
          return None
      page_num = page_num.lstrip('0').lower()
      page_num = re.sub(r'[^0-9ab]', '', page_num)
      return page_num
  \<close>
\<close>

definition page_label_char :: "nat \<Rightarrow> bool" where
  "page_label_char c \<longleftrightarrow> (48 \<le> c \<and> c \<le> 57) \<or> c = 97 \<or> c = 98"

definition clean_page_number :: "env \<Rightarrow> ustring option \<Rightarrow> ustring option" where
  "clean_page_number E page_num =
     (case page_num of
        None \<Rightarrow> None
      | Some page_num \<Rightarrow>
          (let page_num = lower E (lstrip_by (\<lambda>c. c = 48) page_num);
               page_num = filter page_label_char page_num
           in Some page_num))"

text \<open>
  The pattern \<^verbatim>\<open>[0-9]*[ab]?\<close> that the specification gives for a page label, as a
  test on the whole string: digits, then at most one of \<open>a\<close> and \<open>b\<close>.
\<close>

definition spec_page_label :: "ustring \<Rightarrow> bool" where
  "spec_page_label s \<longleftrightarrow>
     (let r = dropWhile (\<lambda>c. 48 \<le> c \<and> c \<le> 57) s in r = [] \<or> r = [97] \<or> r = [98])"

text \<open>
  \<^verbatim>\<open>s.split(sep)\<close> for a separator that is not empty: the pieces between the
  non-overlapping occurrences of \<open>sep\<close>, found from the left.
\<close>

function split_str :: "'a list \<Rightarrow> 'a list \<Rightarrow> 'a list \<Rightarrow> 'a list list" where
  "split_str sep cur [] = [cur]"
| "split_str sep cur (c # cs) =
     (if sep \<noteq> [] \<and> prefix sep (c # cs)
      then cur # split_str sep [] (drop (length sep) (c # cs))
      else split_str sep (cur @ [c]) cs)"
  by pat_completeness auto
termination
  by (relation "measure (\<lambda>(sep, cur, s). length s)") auto

text \<open>
  The page marker \<^verbatim>\<open>(@+\S+)\<close> of \<^verbatim>\<open>re.split\<close>: \<open>@\<close> is itself not blank, so a
  match that starts at an \<open>@\<close> is the whole run of non-blank characters from there,
  and there is one when that run has two characters at least.

  \<^verbatim>\<open>re.match(r'@+(\S+)', part)\<close> gives the label: what follows the leading \<open>@\<close>s up to
  the next blank, or, when nothing follows them, the last of two or more \<open>@\<close>.
\<close>

definition marker_pattern :: matcher where
  "marker_pattern s =
     (if s \<noteq> [] \<and> hd s = 64 \<and> 2 \<le> length (takeWhile (\<lambda>c. \<not> isspace c) s)
      then Some (takeWhile (\<lambda>c. \<not> isspace c) s, dropWhile (\<lambda>c. \<not> isspace c) s)
      else None)"

definition page_match :: "ustring \<Rightarrow> ustring option" where
  "page_match part =
     (if part \<noteq> [] \<and> hd part = 64 then
        (let group1 = takeWhile (\<lambda>c. \<not> isspace c) (dropWhile (\<lambda>c. c = 64) part)
         in if group1 \<noteq> [] then Some group1
            else if 2 \<le> length (takeWhile (\<lambda>c. c = 64) part) then Some [64]
            else None)
      else None)"

record page =
  number :: "ustring option"
  content :: "ustring list"

text \<open>
  \<^verbatim>\<open>
  def parse_document(content):
      global PAGE_COUNT
      content = balance_parentheses(content, '(', ')')
      page_splits = re.split(r'(@+\S+)', content)
      pages = []
      current_page = None
      current_content = []
      for part in page_splits:
          page_match = re.match(r'@+(\S+)', part)
          if page_match:
              if current_page is not None or current_content:
                  pages.append({'number': clean_page_number(current_page),
                                'content': current_content})
                  PAGE_COUNT += 1
              current_content = []
              current_page = page_match.group(1)
          else:
              if part.strip():
                  paras = [p.replace('\n', ' ').replace('  ', ' ').strip()
                           for p in part.split('\n\n') if p.strip()]
                  current_content.extend(paras)
      if current_page is not None or current_content:
          pages.append({'number': clean_page_number(current_page),
                        'content': current_content})
      if len(pages) > 2 and pages[0]['number'] is None and (pages[1]['number'] == '1a' or pages[1]['number'] == '1') and pages[2]['number'] == '2a':
          pages[0]['number'] = '1a'
          pages[1]['number'] = '1b'
      return pages
  \<close>
  The counter \<^verbatim>\<open>PAGE_COUNT\<close> is written but never read by the parser; it is left out.
  The argument is called \<open>document\<close> here, \<open>content\<close> being a field of the pages.
  \<open>split_pages\<close> is the parser up to its last statement, \<open>first_page_heuristic\<close> that
  statement.
\<close>

definition paragraphs :: "ustring \<Rightarrow> ustring list" where
  "paragraphs part =
     map (\<lambda>p. strip_ws (replace_str (replace_str p [10] [32]) [32, 32] [32]))
       (filter (\<lambda>p. strip_ws p \<noteq> []) (split_str [10, 10] [] part))"

definition close_page :: "env \<Rightarrow> page list \<Rightarrow> ustring option \<Rightarrow> ustring list \<Rightarrow> page list" where
  "close_page E pages current_page current_content =
     (if current_page \<noteq> None \<or> current_content \<noteq> []
      then pages @ [\<lparr>number = clean_page_number E current_page, content = current_content\<rparr>]
      else pages)"

fun collect_pages ::
  "env \<Rightarrow> page list \<Rightarrow> ustring option \<Rightarrow> ustring list \<Rightarrow> ustring list \<Rightarrow> page list" where
  "collect_pages E pages current_page current_content [] =
     close_page E pages current_page current_content"
| "collect_pages E pages current_page current_content (part # parts) =
     (case page_match part of
        Some group1 \<Rightarrow>
          collect_pages E (close_page E pages current_page current_content) (Some group1) [] parts
      | None \<Rightarrow>
          if strip_ws part \<noteq> []
          then collect_pages E pages current_page (current_content @ paragraphs part) parts
          else collect_pages E pages current_page current_content parts)"

definition first_page_heuristic :: "page list \<Rightarrow> page list" where
  "first_page_heuristic pages =
     (if length pages > 2 \<and> number (pages ! 0) = None
         \<and> (number (pages ! 1) = Some (str ''1a'') \<or> number (pages ! 1) = Some (str ''1''))
         \<and> number (pages ! 2) = Some (str ''2a'')
      then (pages[0 := (pages ! 0)\<lparr>number := Some (str ''1a'')\<rparr>])
             [1 := (pages ! 1)\<lparr>number := Some (str ''1b'')\<rparr>]
      else pages)"

definition split_pages :: "env \<Rightarrow> ustring \<Rightarrow> page list" where
  "split_pages E document =
     collect_pages E [] None []
       (re_split marker_pattern [] (balance_parentheses document (str ''('') (str '')'')))"

definition parse_document :: "env \<Rightarrow> ustring \<Rightarrow> page list" where
  "parse_document E document = first_page_heuristic (split_pages E document)"

section \<open>Document assembler: pages and paragraphs\<close>

text \<open>
  The loop of \<^verbatim>\<open>convert_file\<close> that writes the body:
  \<^verbatim>\<open>
  for page in pages:
      is_blank = len(page['content']) == 1 and ("MISSING PAGE" in page['content'][0] or "BLANK PAGE" in page['content'][0] or "[BP]" in page['content'][0])
      pnum_attribute = "" if not page["number"] else f' n="{page["number"]}"'
      if is_blank:
          tei_content.append(f'<pb{pnum_attribute} rend="blank"/>')
          continue
      tei_content.append(f'<pb{pnum_attribute}/>')
      for p in page['content']:
          converted_p = convert_line(p, variant_mode)
          if converted_p:
              tei_content.append(f'{converted_p}')
  \<close>
  \<open>page_lines\<close> is what one page appends to \<^verbatim>\<open>tei_content\<close>.
\<close>

definition is_blank :: "page \<Rightarrow> bool" where
  "is_blank pg \<longleftrightarrow>
     length (content pg) = 1
     \<and> (contains_str (content pg ! 0) (str ''MISSING PAGE'')
        \<or> contains_str (content pg ! 0) (str ''BLANK PAGE'')
        \<or> contains_str (content pg ! 0) (str ''[BP]''))"

definition pnum_attribute :: "page \<Rightarrow> ustring" where
  \<open>pnum_attribute pg =
     (case number pg of
        None \<Rightarrow> []
      | Some n \<Rightarrow> if n = [] then [] else str '' n="'' @ n @ str ''"'')\<close>

definition page_lines :: "env \<Rightarrow> int \<Rightarrow> page \<Rightarrow> ustring list" where
  \<open>page_lines E variant_mode pg =
     (if is_blank pg then [str ''<pb'' @ pnum_attribute pg @ str '' rend="blank"/>'']
      else (str ''<pb'' @ pnum_attribute pg @ str ''/>'')
             # filter (\<lambda>converted_p. converted_p \<noteq> [])
                 (map (\<lambda>p. convert_line E p variant_mode) (content pg)))\<close>

definition body_lines :: "env \<Rightarrow> int \<Rightarrow> page list \<Rightarrow> ustring list" where
  "body_lines E variant_mode pages = concat (map (page_lines E variant_mode) pages)"

section \<open>A reference environment\<close>

text \<open>
  To run the model on a concrete paragraph, the parameters need values. The
  environment \<open>plain_env\<close> stands for the libraries in the simplest way that keeps
  their interface: \<^verbatim>\<open>ACIPtoEWTS\<close> leaves the text as it is, \<^verbatim>\<open>toUnicode\<close> turns a
  blank into a tsheg (as EWTS does) and leaves every other character, and the parser
  accepts \<open><p>...</p>\<close> when the content is well formed in the sense of \<open>scan_content\<close>:
  tags nest, text holds only characters that XML 1.0 allows, no raw \<open><\<close>, and \<open>&\<close>
  only as the start of one of the five predefined entities. Beyond ASCII no character
  counts as a letter or a digit, and lowercasing changes the ASCII letters only.
\<close>

definition xml_char :: "nat \<Rightarrow> bool" where
  "xml_char c \<longleftrightarrow>
     c = 9 \<or> c = 10 \<or> c = 13 \<or> (0x20 \<le> c \<and> c \<le> 0xD7FF) \<or> (0xE000 \<le> c \<and> c \<le> 0xFFFD)
     \<or> (0x10000 \<le> c \<and> c \<le> 0x10FFFF)"

datatype scan = Bad | Text "ustring list" | Tag "ustring list" ustring | Ent "ustring list" ustring

definition close_tag :: "ustring list \<Rightarrow> ustring \<Rightarrow> scan" where
  "close_tag stack buf =
     (if buf = [] then Bad
      else if hd buf = 47 then
        (case stack of
           [] \<Rightarrow> Bad
         | name # stack' \<Rightarrow> if rstrip_by isspace (tl buf) = name then Text stack' else Bad)
      else if last buf = 47 then Text stack
      else Text (takeWhile (\<lambda>c. \<not> isspace c) buf # stack))"

definition entity_names :: "ustring list" where
  "entity_names = [str ''amp'', str ''lt'', str ''gt'', str ''quot'', str ''apos'']"

fun scan_step :: "scan \<Rightarrow> nat \<Rightarrow> scan" where
  "scan_step Bad c = Bad"
| "scan_step (Text stack) c =
     (if c = 60 then Tag stack []
      else if c = 38 then Ent stack []
      else if xml_char c then Text stack else Bad)"
| "scan_step (Tag stack buf) c =
     (if c = 62 then close_tag stack buf
      else if c = 60 \<or> \<not> xml_char c then Bad
      else Tag stack (buf @ [c]))"
| "scan_step (Ent stack buf) c =
     (if c = 59 then (if buf \<in> set entity_names then Text stack else Bad)
      else if 97 \<le> c \<and> c \<le> 122 then Ent stack (buf @ [c])
      else Bad)"

definition scan_content :: "ustring \<Rightarrow> scan" where
  "scan_content s = foldl scan_step (Text []) s"

definition plain_parses :: "ustring \<Rightarrow> bool" where
  "plain_parses x \<longleftrightarrow>
     prefix (str ''<p>'') x \<and> suffix (str ''</p>'') x \<and> 7 \<le> length x
     \<and> scan_content (take (length x - 7) (drop 3 x)) = Text []"

definition plain_env :: env where
  "plain_env =
     \<lparr>ACIPtoEWTS = (\<lambda>s. s),
      toUnicode = map (\<lambda>c. if c = 32 then 0x0F0B else c),
      xml_parses = plain_parses,
      isalpha_ext = (\<lambda>c. False),
      isdigit_ext = (\<lambda>c. False),
      lower_ext = map lower_ascii\<rparr>"

section \<open>Notions used in the statements\<close>

text \<open>
  The fallback as the specification words it: the paragraph string as it came in,
  transliterated as a whole and escaped.
\<close>

definition spec_fallback :: "env \<Rightarrow> ustring \<Rightarrow> ustring" where
  "spec_fallback E line_str = escape (ACIP_transform E line_str False)"

text \<open>
  What \<^verbatim>\<open>convert_line\<close> returns for the paragraph \<open>rgyal [rgyas?]\<close> under the
  choice/correction policy (lemma \<open>convert_line_rgyal\<close>), with the transliteration of
  the two words left to the environment.
\<close>

definition rgyal_fragment :: "env \<Rightarrow> ustring" where
  \<open>rgyal_fragment E =
     str ''<choice><orig><lb/>'' @ escape (ACIP_transform E (str ''rgyal'') False)
       @ str ''</orig><corr cert="low">'' @ escape (ACIP_transform E (str ''rgyas'') False)
       @ str ''</corr></choice>''\<close>

text \<open>
  What the converter relies on in its libraries. Of the parser: a fragment that parses
  inside \<open><p>\<close> still parses when the white space around it is removed, and escaped
  text of characters that XML 1.0 allows parses. Of the transliteration: text of the
  characters that the sanitizer lets through comes out as characters that XML allows.
\<close>

definition parser_contract :: "env \<Rightarrow> bool" where
  "parser_contract E \<longleftrightarrow>
     (\<forall>x. xml_parses E (str ''<p>'' @ x @ str ''</p>'')
          \<longrightarrow> xml_parses E (str ''<p>'' @ strip_ws x @ str ''</p>''))
     \<and> (\<forall>t. list_all xml_char t \<longrightarrow> xml_parses E (str ''<p>'' @ escape t @ str ''</p>''))"

definition transliteration_contract :: "env \<Rightarrow> bool" where
  "transliteration_contract E \<longleftrightarrow>
     (\<forall>s. list_all sanitize_keep s \<longrightarrow> list_all xml_char (toUnicode E (ACIPtoEWTS E s)))"


text \<open>Every paragraph of every page holds only characters that the sanitizer keeps.\<close>

definition pages_keep :: "page list \<Rightarrow> bool" where
  "pages_keep pages \<longleftrightarrow> (\<forall>pg \<in> set pages. \<forall>p \<in> set (content pg). list_all sanitize_keep p)"


text \<open>No paragraph of any page is empty after trimming.\<close>

definition pages_not_blank :: "page list \<Rightarrow> bool" where
  "pages_not_blank pages \<longleftrightarrow>
     (\<forall>pg \<in> set pages. \<forall>p \<in> set (content pg). strip_by (\<lambda>c. c \<in> {32, 9, 10, 13}) p \<noteq> [])"

section \<open>Matches are never empty\<close>

lemma dropWhile_tl_shorter: "dropWhile P s \<noteq> [] \<Longrightarrow> length (tl (dropWhile P s)) < length s"
proof -
  assume "dropWhile P s \<noteq> []"
  then have "length (tl (dropWhile P s)) < length (dropWhile P s)" by simp
  also have "\<dots> \<le> length s" by (rule length_dropWhile_le)
  finally show ?thesis .
qed

lemma group_until_shorter:
  "group_until x s = Some (inner, rest) \<Longrightarrow> length rest < length s"
  by (auto simp: group_until_def Let_def dropWhile_tl_shorter split: if_splits
      simp del: dropWhile_eq_Nil_conv length_tl)

lemma tag_pattern_shorter: "tag_pattern s = Some (g, rest) \<Longrightarrow> length rest < length s"
  by (auto simp: tag_pattern_def split: list.splits if_splits option.splits
      dest!: group_until_shorter)

lemma unclear_pattern_shorter: "unclear_pattern E s = Some (r, rest) \<Longrightarrow> length rest < length s"
  by (auto simp: unclear_pattern_def split: list.splits if_splits option.splits
      dest!: group_until_shorter)

lemma paren_pattern_shorter: "paren_pattern s = Some (r, rest) \<Longrightarrow> length rest < length s"
proof (cases s)
  case Nil
  then show "paren_pattern s = Some (r, rest) \<Longrightarrow> ?thesis" by (simp add: paren_pattern_def)
next
  case (Cons c cs)
  assume "paren_pattern s = Some (r, rest)"
  with Cons have "dropWhile (\<lambda>x. x \<noteq> 41) cs \<noteq> []" and "rest = tl (dropWhile (\<lambda>x. x \<noteq> 41) cs)"
    by (auto simp: paren_pattern_def Let_def split: if_splits simp del: dropWhile_eq_Nil_conv)
  then have "length rest < length cs"
    by (simp add: dropWhile_tl_shorter del: dropWhile_eq_Nil_conv length_tl)
  with Cons show ?thesis by simp
qed

lemma editorial_pattern_shorter:
  assumes "editorial_pattern s = Some (r, rest)"
  shows "length rest < length s"
proof -
  let ?d = "dropWhile (\<lambda>x. x \<noteq> 93 \<and> x \<noteq> 10) (drop 2 s)"
  from assms have "?d \<noteq> []" and "rest = tl ?d"
    by (auto simp: editorial_pattern_def Let_def split: if_splits simp del: dropWhile_eq_Nil_conv)
  then have "length rest < length (drop 2 s)"
    using dropWhile_tl_shorter [of "\<lambda>x. x \<noteq> 93 \<and> x \<noteq> 10" "drop 2 s"] by blast
  then show ?thesis by simp
qed

lemma figure_pattern_shorter:
  assumes "figure_pattern E s = Some (r, rest)"
  shows "length rest < length s"
proof -
  from assms have p: "prefix (str ''[DD'') s"
    by (auto simp: figure_pattern_def split: if_splits)
  then have l: "3 \<le> length s" by (auto simp: prefix_def str_def)
  define s1 where "s1 = drop 3 s"
  define s2 where "s2 = (if s1 \<noteq> [] \<and> isdigit E (hd s1) then tl s1 else s1)"
  define s3 where "s3 = tl s2"
  define s4 where "s4 = (if s3 \<noteq> [] \<and> hd s3 = 32 \<and> tl s3 \<noteq> [] \<and> hd (tl s3) \<noteq> 91 then tl s3 else s3)"
  from assms p have "rest = dropWhile (\<lambda>x. x \<noteq> 91) s4"
    by (auto simp: figure_pattern_def Let_def s1_def s2_def s3_def s4_def split: if_splits)
  then have "length rest \<le> length s4" by (simp add: length_dropWhile_le)
  also have "\<dots> \<le> length s3" by (simp add: s4_def)
  also have "\<dots> \<le> length s2" by (simp add: s3_def)
  also have "\<dots> \<le> length s1" by (simp add: s2_def)
  also have "\<dots> < length s" using l by (simp add: s1_def)
  finally show ?thesis .
qed

lemma variant_at_shorter: "variant_at k p = Some (r, rest) \<Longrightarrow> length rest < length p"
  by (auto simp: variant_at_def split: if_splits option.splits dest!: group_until_shorter)

lemma variant_give_back_shorter:
  "variant_give_back k p = Some (r, rest) \<Longrightarrow> length rest < length p"
  by (induction k) (auto split: option.splits dest: variant_at_shorter)

lemma variant_core_shorter:
  assumes "variant_core p = Some (r, rest)"
  shows "length rest < length p"
proof -
  let ?q = "dropWhile isspace (dropWhile (\<lambda>c. \<not> isspace c) p)"
  have q: "length ?q \<le> length p"
    by (meson length_dropWhile_le le_trans)
  from assms consider
    (a) group2 where "?q \<noteq> []" "group_until 93 (tl ?q) = Some (group2, rest)"
    | (b) k where "variant_give_back k p = Some (r, rest)"
    by (auto simp: variant_core_def Let_def split: if_splits option.splits
        simp del: dropWhile_eq_Nil_conv)
  then show ?thesis
  proof cases
    case a
    from a(2) have "length rest < length (tl ?q)" by (rule group_until_shorter)
    with q show ?thesis by simp
  next
    case b
    then show ?thesis by (rule variant_give_back_shorter)
  qed
qed

lemma variant_pattern_shorter:
  assumes "variant_pattern at_start s = Some (r, rest)"
  shows "length rest < length s"
proof -
  from assms have "variant_core s = Some (r, rest) \<or> variant_core (dropWhile isspace s) = Some (r, rest)"
    by (auto simp: variant_pattern_def split: if_splits option.splits)
  then show ?thesis
  proof
    assume "variant_core s = Some (r, rest)"
    then show ?thesis by (rule variant_core_shorter)
  next
    assume "variant_core (dropWhile isspace s) = Some (r, rest)"
    then have "length rest < length (dropWhile isspace s)" by (rule variant_core_shorter)
    also have "\<dots> \<le> length s" by (rule length_dropWhile_le)
    finally show ?thesis .
  qed
qed

lemma marker_pattern_shorter:
  assumes "marker_pattern s = Some (g, rest)"
  shows "length rest < length s"
proof -
  from assms have "2 \<le> length (takeWhile (\<lambda>c. \<not> isspace c) s)"
    and "rest = dropWhile (\<lambda>c. \<not> isspace c) s"
    by (auto simp: marker_pattern_def split: if_splits)
  moreover have "length (takeWhile (\<lambda>c. \<not> isspace c) s) + length (dropWhile (\<lambda>c. \<not> isspace c) s) = length s"
    by (metis length_append takeWhile_dropWhile_id)
  ultimately show ?thesis by simp
qed

text \<open>So the scanners never take the branch that guards against an empty match.\<close>

lemma re_sub_match:
  assumes "m (c # cs) = Some (r, rest)" and "\<And>s r rest. m s = Some (r, rest) \<Longrightarrow> length rest < length s"
  shows "re_sub m (c # cs) = r @ re_sub m rest"
  using assms(1) assms(2) [OF assms(1)] by simp

lemma re_split_match:
  assumes "m (c # cs) = Some (g, rest)" and "\<And>s g rest. m s = Some (g, rest) \<Longrightarrow> length rest < length s"
  shows "re_split m cur (c # cs) = cur # g # re_split m [] rest"
  using assms(1) assms(2) [OF assms(1)] by simp

section \<open>Evaluating the string functions\<close>

text \<open>
  \<open>count_str\<close> and \<open>replace_str\<close> are defined by one equation over all arguments; on a
  string that is given, these are the equations to compute with.
\<close>

lemma count_str_Nil: "count_str [] sub = (if sub = [] then 1 else 0)"
  by (simp add: count_str.simps [of "[]"])

lemma count_str_Cons:
  "count_str (c # cs) sub =
     (if sub = [] then length cs + 2
      else if prefix sub (c # cs) then 1 + count_str (drop (length sub) (c # cs)) sub
      else count_str cs sub)"
  by (simp add: count_str.simps [of "c # cs"])

lemma replace_str_Nil: "replace_str [] old new = (if old = [] then new else [])"
  by (simp add: replace_str.simps [of "[]"])

lemma replace_str_Cons:
  "replace_str (c # cs) old new =
     (if old = [] then new @ c # replace_str cs old new
      else if prefix old (c # cs) then new @ replace_str (drop (length old) (c # cs)) old new
      else c # replace_str cs old new)"
  by (simp add: replace_str.simps [of "c # cs"])

lemmas string_eval =
  str_def count_str_Nil count_str_Cons replace_str_Nil replace_str_Cons
  lstrip_by_def rstrip_by_def strip_by_def strip_ws_def isspace_def

section \<open>Properties of bracket balancing\<close>

lemma count_str_single: "count_str s [c] = count_list s c"
  by (induction s) (simp_all add: count_str_Nil count_str_Cons)

lemma balance_parentheses_more_open:
  assumes "count_list s a > count_list s b"
  shows "balance_parentheses s [a] [b] = s @ replicate (count_list s a - count_list s b) a"
  using assms by (simp add: balance_parentheses_def count_str_single Let_def)

lemma balance_parentheses_more_close:
  assumes "count_list s b > count_list s a"
  shows "balance_parentheses s [a] [b] = replicate (count_list s b - count_list s a) b @ s"
  using assms by (simp add: balance_parentheses_def count_str_single Let_def)

lemma balance_parentheses_equal:
  assumes "count_list s a = count_list s b"
  shows "balance_parentheses s [a] [b] = s"
  using assms by (simp add: balance_parentheses_def count_str_single Let_def)

text \<open>
  Claim C2. Balancing is meant to repair symmetrically: missing closers are appended,
  missing openers are prepended, and the result holds as many \<open>c1\<close> as \<open>c2\<close>. The code
  appends the opening character where closers are missing and prepends the closing
  character where openers are missing: on \<open>(\<close> it returns \<open>((\<close>, on \<open>)\<close> it returns
  \<open>))\<close>, and the result holds two openers and no closer.
\<close>

theorem balance_parentheses_adds_wrong_bracket:
  "balance_parentheses (str ''('') (str ''('') (str '')'') = str ''((''
   \<and> balance_parentheses (str '')'') (str ''('') (str '')'') = str ''))''
   \<and> count_str (balance_parentheses (str ''('') (str ''('') (str '')'')) (str ''('') = 2
   \<and> count_str (balance_parentheses (str ''('') (str ''('') (str '')'')) (str '')'') = 0"
  by (simp add: balance_parentheses_def string_eval)

text \<open>
  Claim C3. Balancing is meant to be idempotent. Since the code widens the imbalance
  instead of closing it, a second run changes the text again: \<open>(\<close> becomes \<open>((\<close>, and
  \<open>((\<close> becomes \<open>((((\<close>.
\<close>

theorem balance_parentheses_not_idempotent:
  "balance_parentheses (balance_parentheses (str ''('') (str ''('') (str '')'')) (str ''('') (str '')'')
     = str ''((((''
   \<and> balance_parentheses (balance_parentheses (str ''('') (str ''('') (str '')'')) (str ''('') (str '')'')
     \<noteq> balance_parentheses (str ''('') (str ''('') (str '')'')"
  by (simp add: balance_parentheses_def string_eval)

section \<open>The sanitizer is idempotent\<close>

lemma no_nl_sp_Cons: "no_nl_sp (c # r) = ((c = 10 \<longrightarrow> r = [] \<or> hd r \<noteq> 32) \<and> no_nl_sp r)"
  by (cases r) auto

lemma no_dbl_sp_Cons: "no_dbl_sp (c # r) = ((c = 32 \<longrightarrow> r = [] \<or> hd r \<noteq> 32) \<and> no_dbl_sp r)"
  by (cases r) auto

lemma replace_str_absent:
  "old \<noteq> [] \<Longrightarrow> hd old \<notin> set s \<Longrightarrow> replace_str s old new = s"
proof (induction s)
  case Nil
  then show ?case by (simp add: replace_str_Nil)
next
  case (Cons x xs)
  from Cons.prems have "\<not> prefix old (x # xs)"
    by (cases old) (auto simp: prefix_Cons)
  with Cons show ?case by (simp add: replace_str_Cons)
qed

lemma replace_str_single_gone:
  "c \<notin> set new \<Longrightarrow> c \<notin> set (replace_str s [c] new)"
proof (induction s)
  case Nil
  then show ?case by (simp add: replace_str_Nil)
next
  case (Cons x xs)
  then show ?case by (auto simp: replace_str_Cons)
qed

lemma replace_str_set:
  "set (replace_str s old new) \<subseteq> set s \<union> set new"
proof (induction s old new rule: replace_str.induct)
  case (1 s old new)
  show ?case
  proof (cases s)
    case Nil
    then show ?thesis by (auto simp: replace_str_Nil)
  next
    case (Cons x xs)
    show ?thesis
    proof (cases "old = []")
      case True
      with 1(1) [of x xs] Cons show ?thesis
        by (auto simp: replace_str_Cons)
    next
      case False
      show ?thesis
      proof (cases "prefix old s")
        case True
        with 1(2) False Cons have "set (replace_str (drop (length old) s) old new) \<subseteq> set (drop (length old) s) \<union> set new"
          by simp
        moreover have "set (drop (length old) s) \<subseteq> set s" by (rule set_drop_subset)
        ultimately show ?thesis using True False Cons
          by (auto simp: replace_str_Cons)
      next
        case np: False
        with 1(3) False Cons show ?thesis
          by (auto simp: replace_str_Cons)
      qed
    qed
  qed
qed

lemma sub_newline_spaces_Nil [simp]: "sub_newline_spaces s = [] \<longleftrightarrow> s = []"
  by (cases s) auto

lemma sub_newline_spaces_hd: "hd (sub_newline_spaces s) = hd s"
  by (cases s) auto

lemma sub_space_runs_Nil [simp]: "sub_space_runs s = [] \<longleftrightarrow> s = []"
  by (cases s) auto

lemma sub_space_runs_hd: "hd (sub_space_runs s) = hd s"
  by (cases s) auto

lemma dropWhile_hd: "dropWhile P xs = [] \<or> \<not> P (hd (dropWhile P xs))"
  by (induction xs) auto

lemma sub_newline_spaces_set: "set (sub_newline_spaces s) \<subseteq> set s"
proof (induction s rule: sub_newline_spaces.induct)
  case 1
  show ?case by simp
next
  case (2 c cs)
  have "set (dropWhile (\<lambda>x. x = 32) cs) \<subseteq> set cs"
    by (simp add: set_dropWhileD subsetI)
  with 2 show ?case by auto
qed

lemma sub_space_runs_set: "set (sub_space_runs s) \<subseteq> set s"
proof (induction s rule: sub_space_runs.induct)
  case 1
  show ?case by simp
next
  case (2 c cs)
  have "set (dropWhile (\<lambda>x. x = 32) cs) \<subseteq> set cs"
    by (simp add: set_dropWhileD subsetI)
  with 2 show ?case by auto
qed

lemma sub_newline_spaces_no_nl_sp: "no_nl_sp (sub_newline_spaces s)"
proof (induction s rule: sub_newline_spaces.induct)
  case 1
  show ?case by simp
next
  case (2 c cs)
  show ?case
  proof (cases "c = 10 \<and> cs \<noteq> [] \<and> hd cs = 32")
    case True
    with 2 show ?thesis
      using dropWhile_hd [of "\<lambda>x. x = 32" cs]
      by (simp add: no_nl_sp_Cons sub_newline_spaces_hd del: dropWhile_eq_Nil_conv)
  next
    case False
    with 2 show ?thesis
      by (auto simp: no_nl_sp_Cons sub_newline_spaces_hd)
  qed
qed

lemma sub_newline_spaces_id: "no_nl_sp s \<Longrightarrow> sub_newline_spaces s = s"
  by (induction s) (auto simp: no_nl_sp_Cons)

lemma sub_space_runs_no_dbl_sp: "no_dbl_sp (sub_space_runs s)"
proof (induction s rule: sub_space_runs.induct)
  case 1
  show ?case by simp
next
  case (2 c cs)
  show ?case
  proof (cases "c = 32 \<and> cs \<noteq> [] \<and> hd cs = 32")
    case True
    with 2 show ?thesis
      using dropWhile_hd [of "\<lambda>x. x = 32" cs]
      by (simp add: no_dbl_sp_Cons sub_space_runs_hd del: dropWhile_eq_Nil_conv)
  next
    case False
    with 2 show ?thesis
      by (auto simp: no_dbl_sp_Cons sub_space_runs_hd)
  qed
qed

lemma sub_space_runs_id: "no_dbl_sp s \<Longrightarrow> sub_space_runs s = s"
  by (induction s) (auto simp: no_dbl_sp_Cons)

lemma sub_space_runs_no_nl_sp: "no_nl_sp s \<Longrightarrow> no_nl_sp (sub_space_runs s)"
proof (induction s rule: sub_space_runs.induct)
  case 1
  show ?case by simp
next
  case (2 c cs)
  show ?case
  proof (cases "c = 32 \<and> cs \<noteq> [] \<and> hd cs = 32")
    case True
    have "no_nl_sp (dropWhile (\<lambda>x. x = 32) cs)" using "2.prems"
      by (induction cs arbitrary: c) (auto simp: no_nl_sp_Cons)
    with 2 True show ?thesis
      by (simp add: no_nl_sp_Cons)
  next
    case False
    with 2 show ?thesis
      by (auto simp: no_nl_sp_Cons sub_space_runs_hd)
  qed
qed

lemma sanitize_str_keep: "\<forall>c \<in> set (sanitize_str s). sanitize_keep c"
proof -
  let ?f = "filter sanitize_keep s"
  have "set (replace_str (replace_str ?f [13, 10] [10]) [13] [10]) \<subseteq> set ?f \<union> {10}"
    using replace_str_set [of "replace_str ?f [13, 10] [10]" "[13]" "[10]"]
      replace_str_set [of ?f "[13, 10]" "[10]"] by auto
  then have "set (sanitize_str s) \<subseteq> set ?f \<union> {10}"
    using sub_newline_spaces_set sub_space_runs_set
    unfolding sanitize_str_def Let_def by blast
  then show ?thesis by (auto simp: sanitize_keep_def)
qed

lemma sanitize_str_no_cr: "13 \<notin> set (sanitize_str s)"
proof -
  have "13 \<notin> set (replace_str (replace_str (filter sanitize_keep s) [13, 10] [10]) [13] [10])"
    by (rule replace_str_single_gone) simp
  then show ?thesis
    using sub_newline_spaces_set sub_space_runs_set
    unfolding sanitize_str_def Let_def by blast
qed

text \<open>
  Claim C10. Sanitizing twice is sanitizing once. The output of the sanitizer holds
  only characters that the first rule keeps, no carriage return, no space behind a
  newline and no two spaces in a row, so none of the four rules finds anything to do
  on it.
\<close>

theorem sanitize_str_idempotent: "sanitize_str (sanitize_str s) = sanitize_str s"
proof -
  let ?t = "sanitize_str s"
  have keep: "filter sanitize_keep ?t = ?t"
    using sanitize_str_keep [of s] by (simp add: filter_id_conv)
  have cr: "13 \<notin> set ?t" by (rule sanitize_str_no_cr)
  have r1: "replace_str ?t [13, 10] [10] = ?t"
    using cr by (simp add: replace_str_absent)
  have r2: "replace_str ?t [13] [10] = ?t"
    using cr by (simp add: replace_str_absent)
  have nl: "no_nl_sp ?t"
    unfolding sanitize_str_def Let_def
    by (rule sub_space_runs_no_nl_sp) (rule sub_newline_spaces_no_nl_sp)
  have sp: "no_dbl_sp ?t"
    unfolding sanitize_str_def Let_def by (rule sub_space_runs_no_dbl_sp)
  have "sanitize_str ?t = sub_space_runs (sub_newline_spaces (replace_str (replace_str (filter sanitize_keep ?t) [13, 10] [10]) [13] [10]))"
    by (simp add: sanitize_str_def [of ?t] Let_def)
  also have "\<dots> = ?t"
    by (simp only: keep r1 r2 sub_newline_spaces_id [OF nl] sub_space_runs_id [OF sp])
  finally show ?thesis .
qed

section \<open>Page labels and the first-page heuristic\<close>

lemmas parser_eval =
  split_pages_def balance_parentheses_def marker_pattern_def page_match_def close_page_def
  clean_page_number_def lower_def lower_ascii_def page_label_char_def paragraphs_def

text \<open>
  Claim C8, as stated, fails: a label is not always digits followed by at most one
  letter. The marker \<open>@12b-13a\<close> has the label \<open>12b-13a\<close>, which is normalized to
  \<open>12b13a\<close>.
\<close>

theorem clean_page_number_not_spec_pattern:
  "clean_page_number plain_env (Some (str ''12b-13a'')) = Some (str ''12b13a'')
   \<and> \<not> spec_page_label (str ''12b13a'')"
  by (simp add: clean_page_number_def lower_def lower_ascii_def page_label_char_def
      spec_page_label_def string_eval)

text \<open>
  Claim C8, amended. \<^verbatim>\<open>clean_page_number(None)\<close> is \<open>None\<close>. For a label, the result is
  the label with its leading zeros stripped, lowercased, and every character that is not
  a digit, \<open>a\<close> or \<open>b\<close> dropped; it consists of digits and the letters \<open>a\<close> and \<open>b\<close>
  only, in any number and order.
\<close>

theorem clean_page_number_label_chars:
  "clean_page_number E None = None
   \<and> (\<exists>r. clean_page_number E (Some s) = Some r
          \<and> r = filter page_label_char (lower E (dropWhile (\<lambda>c. c = 48) s))
          \<and> list_all page_label_char r)"
  by (simp add: clean_page_number_def lstrip_by_def Let_def list_all_iff)

theorem clean_page_number_label_chars_witness:
  "clean_page_number plain_env (Some (str ''001A'')) = Some (str ''1a'')
   \<and> list_all page_label_char (str ''1a'')"
  using clean_page_number_label_chars [of plain_env "str ''001A''"]
  by (simp add: lower_def lower_ascii_def page_label_char_def string_eval)

text \<open>
  Claim C9. When the document has at least three pages, the first without a number,
  the second labelled \<open>1a\<close> or \<open>1\<close> and the third \<open>2a\<close>, the parser relabels the first
  page \<open>1a\<close> and the second \<open>1b\<close> and changes nothing else; in every other case the
  pages are returned as they were split and normalized.
\<close>

theorem parse_document_first_page_heuristic:
  "parse_document E d =
     (let pages = split_pages E d
      in if 3 \<le> length pages \<and> number (pages ! 0) = None
            \<and> (number (pages ! 1) = Some (str ''1a'') \<or> number (pages ! 1) = Some (str ''1''))
            \<and> number (pages ! 2) = Some (str ''2a'')
         then \<lparr>number = Some (str ''1a''), content = content (pages ! 0)\<rparr>
                # \<lparr>number = Some (str ''1b''), content = content (pages ! 1)\<rparr>
                # drop 2 pages
         else pages)"
proof -
  let ?pages = "split_pages E d"
  show ?thesis
  proof (cases ?pages)
    case Nil
    then show ?thesis by (simp add: parse_document_def first_page_heuristic_def)
  next
    case c1: (Cons p0 r1)
    show ?thesis
    proof (cases r1)
      case Nil
      with c1 show ?thesis by (simp add: parse_document_def first_page_heuristic_def)
    next
      case c2: (Cons p1 r2)
      show ?thesis
      proof (cases r2)
        case Nil
        with c1 c2 show ?thesis by (simp add: parse_document_def first_page_heuristic_def)
      next
        case c3: (Cons p2 r3)
        have "3 \<le> length ?pages" "2 < length ?pages" using c1 c2 c3 by simp_all
        with c1 c2 c3 show ?thesis
          by (cases p0; cases p1) (simp add: parse_document_def first_page_heuristic_def Let_def)
      qed
    qed
  qed
qed

lemma split_pages_example:
  "split_pages plain_env (str ''x\<newline>\<newline>@1a y\<newline>\<newline>@2a z'') =
     [\<lparr>number = None, content = [str ''x'']\<rparr>,
      \<lparr>number = Some (str ''1a''), content = [str ''y'']\<rparr>,
      \<lparr>number = Some (str ''2a''), content = [str ''z'']\<rparr>]"
  by (simp add: parser_eval string_eval)

lemma split_pages_example_bare:
  "split_pages plain_env (str ''x\<newline>\<newline>@1 y\<newline>\<newline>@2a z'') =
     [\<lparr>number = None, content = [str ''x'']\<rparr>,
      \<lparr>number = Some (str ''1''), content = [str ''y'']\<rparr>,
      \<lparr>number = Some (str ''2a''), content = [str ''z'']\<rparr>]"
  by (simp add: parser_eval string_eval)

theorem parse_document_first_page_heuristic_witness:
  "map number (parse_document plain_env (str ''x\<newline>\<newline>@1a y\<newline>\<newline>@2a z''))
     = [Some (str ''1a''), Some (str ''1b''), Some (str ''2a'')]
   \<and> map number (parse_document plain_env (str ''x\<newline>\<newline>@1 y\<newline>\<newline>@2a z''))
     = [Some (str ''1a''), Some (str ''1b''), Some (str ''2a'')]"
  using parse_document_first_page_heuristic [of plain_env "str ''x\<newline>\<newline>@1a y\<newline>\<newline>@2a z''"]
    parse_document_first_page_heuristic [of plain_env "str ''x\<newline>\<newline>@1 y\<newline>\<newline>@2a z''"]
  by (simp add: split_pages_example split_pages_example_bare)

section \<open>Paragraphs: evaluation and the blank paragraph\<close>

lemmas line_eval =
  prepare_line_def annotate_line_def markup_line_def convert_text_components_def
  tag_pattern_def group_until_def should_skip_tag_def ends_in_shad_def paren_pattern_def
  replace_parentheses_def editorial_pattern_def note_open_def note_close_def
  figure_pattern_def gap_def unclear_pattern_def replace_unclear_def sub_variant_def
  variant_pattern_def variant_core_def variant_at_def replace_variant_def isalpha_def
  isdigit_def lower_def lower_ascii_def escape_def balance_parentheses_def

lemmas plain_eval =
  plain_env_def ACIP_transform_def is_valid_xml_def plain_parses_def scan_content_def
  close_tag_def entity_names_def xml_char_def suffix_to_prefix

lemma annotate_blank: "annotate_line E [] mode = str ''<lb/>''"
  by (cases "mode = 1") (simp_all add: line_eval string_eval)

lemma markup_blank:
  "markup_line E [] mode
     = escape (ACIP_transform E [] False) @ str ''<lb/>'' @ escape (ACIP_transform E [] False)"
  unfolding markup_line_def annotate_blank
  by (simp add: convert_text_components_def tag_pattern_def group_until_def ends_in_shad_def
      should_skip_tag_def str_def)

lemma strip_by_Nil_iff: "strip_by P s = [] \<longleftrightarrow> list_all P s"
proof -
  have "dropWhile P (rev (dropWhile P s)) = [] \<longleftrightarrow> dropWhile P s = []"
    using dropWhile_hd [of P s]
    by (cases "dropWhile P s") (auto simp: dropWhile_append simp del: dropWhile_eq_Nil_conv)
  then show ?thesis
    by (simp add: strip_by_def lstrip_by_def rstrip_by_def list_all_iff)
qed

lemma strip_by_id: "s \<noteq> [] \<Longrightarrow> \<not> P (hd s) \<Longrightarrow> \<not> P (last s) \<Longrightarrow> strip_by P s = s"
proof -
  assume a: "s \<noteq> []" "\<not> P (hd s)" "\<not> P (last s)"
  then have "dropWhile P s = s" by (cases s) auto
  moreover from a have "dropWhile P (rev s) = rev s"
    by (cases "rev s") (auto simp: last_rev hd_rev)
  ultimately show ?thesis by (simp add: strip_by_def lstrip_by_def rstrip_by_def)
qed

lemma contains_str_set: "contains_str s sub \<Longrightarrow> set sub \<subseteq> set s"
proof (induction s)
  case Nil
  then show ?case by simp
next
  case (Cons a s)
  from Cons.prems have "prefix sub (a # s) \<or> contains_str s sub" by simp
  then show ?case
  proof
    assume "prefix sub (a # s)"
    then show ?thesis by (rule set_mono_prefix)
  next
    assume "contains_str s sub"
    with Cons.IH show ?thesis by auto
  qed
qed

lemma contains_str_blank:
  assumes "\<forall>c \<in> set s. c \<in> {32, 9, 10, 13}" and "x \<in> set sub" and "x \<notin> {32, 9, 10, 13}"
  shows "\<not> contains_str s sub"
  using contains_str_set [of s sub] assms by blast

lemma prepare_line_blank:
  assumes "strip_by (\<lambda>c. c \<in> {32, 9, 10, 13}) s = []"
  shows "prepare_line E s = []"
  using assms by (simp add: prepare_line_def)

lemma is_blank_blank:
  assumes "strip_by (\<lambda>c. c \<in> {32, 9, 10, 13}) s = []"
  shows "\<not> is_blank \<lparr>number = n, content = [s]\<rparr>"
proof -
  from assms have all: "\<forall>c \<in> set s. c \<in> {32, 9, 10, 13}"
    by (simp add: strip_by_Nil_iff list_all_iff)
  have "\<not> contains_str s (str ''MISSING PAGE'')"
    by (rule contains_str_blank [OF all, of 77]) (simp_all add: str_def)
  moreover have "\<not> contains_str s (str ''BLANK PAGE'')"
    by (rule contains_str_blank [OF all, of 66]) (simp_all add: str_def)
  moreover have "\<not> contains_str s (str ''[BP]'')"
    by (rule contains_str_blank [OF all, of 66]) (simp_all add: str_def)
  ultimately show ?thesis by (simp add: is_blank_def)
qed

lemma convert_line_blank:
  assumes "strip_by (\<lambda>c. c \<in> {32, 9, 10, 13}) s = []" and "ACIP_transform E [] False = []"
  shows "convert_line E s mode = (if xml_parses E (str ''<p><lb/></p>'') then str ''<lb/>'' else [])"
proof -
  have e: "escape [] = []" by (simp add: escape_def string_eval)
  have m: "markup_line E [] mode = str ''<lb/>''"
    by (simp add: markup_blank assms(2) e)
  have s1: "strip_ws (str ''<lb/>'') = str ''<lb/>''" by (simp add: string_eval)
  have s2: "strip_ws [] = []" by (simp add: string_eval)
  have p: "str ''<p>'' @ str ''<lb/>'' @ str ''</p>'' = str ''<p><lb/></p>''" by (simp add: str_def)
  show ?thesis
    by (simp add: convert_line_def prepare_line_blank [OF assms(1)] m assms(2) e s1 s2 p
        is_valid_xml_def)
qed

lemma replace_str_keeps:
  "c \<in> set s \<Longrightarrow> c \<notin> set old \<Longrightarrow> c \<in> set (replace_str s old new)"
proof (induction "length s" arbitrary: s rule: less_induct)
  case less
  show ?case
  proof (cases s)
    case Nil
    with less.prems show ?thesis by simp
  next
    case (Cons x xs)
    show ?thesis
    proof (cases "old = []")
      case True
      with less.hyps [of xs] less.prems Cons show ?thesis
        by (auto simp: replace_str_Cons)
    next
      case False
      show ?thesis
      proof (cases "prefix old (x # xs)")
        case True
        then obtain r where r: "x # xs = old @ r" by (auto simp: prefix_def)
        with less.prems Cons have "c \<in> set r" by auto
        moreover from r False have "length r < length s" using Cons
          by (metis length_append length_greater_0_conv less_add_same_cancel2)
        moreover from r have "drop (length old) (x # xs) = r" by simp
        ultimately have "c \<in> set (replace_str (drop (length old) (x # xs)) old new)"
          using less.hyps [of r] less.prems(2) by simp
        with True False Cons show ?thesis by (simp add: replace_str_Cons)
      next
        case np: False
        with less.hyps [of xs] less.prems Cons False show ?thesis
          by (auto simp: replace_str_Cons)
      qed
    qed
  qed
qed

lemma strip_ws_Nil_iff: "strip_ws s = [] \<longleftrightarrow> list_all isspace s"
  by (simp add: strip_ws_def strip_by_Nil_iff)

lemma strip_by_ends:
  assumes "strip_by P s \<noteq> []"
  shows "\<not> P (hd (strip_by P s)) \<and> \<not> P (last (strip_by P s))"
proof -
  let ?d = "dropWhile P s"
  let ?e = "dropWhile P (rev ?d)"
  from assms have e: "?e \<noteq> []" by (simp add: strip_by_def lstrip_by_def rstrip_by_def)
  then have d: "?d \<noteq> []" by (cases "?d") simp_all
  have l: "\<not> P (hd ?e)" using dropWhile_hd [of P "rev ?d"] e by blast
  have "\<not> P (hd ?d)" using dropWhile_hd [of P s] d by blast
  have h: "\<not> P (last ?e)"
  proof -
    have "rev ?d = takeWhile P (rev ?d) @ ?e" by simp
    with e have "last (rev ?d) = last ?e" by (metis last_appendR)
    moreover have "last (rev ?d) = hd ?d" using d by (simp add: last_rev)
    ultimately show ?thesis using \<open>\<not> P (hd ?d)\<close> by simp
  qed
  from e l h show ?thesis
    by (simp add: strip_by_def lstrip_by_def rstrip_by_def hd_rev last_rev)
qed

lemma paragraphs_not_blank:
  assumes "p \<in> set (paragraphs part)"
  shows "strip_by (\<lambda>c. c \<in> {32, 9, 10, 13}) p \<noteq> []"
proof -
  from assms obtain q where q: "strip_ws q \<noteq> []"
    and p: "p = strip_ws (replace_str (replace_str q [10] [32]) [32, 32] [32])"
    by (auto simp: paragraphs_def)
  from q obtain c where c: "c \<in> set q" "\<not> isspace c"
    by (auto simp: strip_ws_Nil_iff list_all_iff)
  then have "c \<noteq> 10" "c \<noteq> 32" by (auto simp: isspace_def)
  with c(1) have "c \<in> set (replace_str (replace_str q [10] [32]) [32, 32] [32])"
    by (intro replace_str_keeps) simp_all
  with c(2) have ne: "p \<noteq> []"
    unfolding p by (auto simp: strip_ws_Nil_iff list_all_iff)
  then have "\<not> isspace (hd p)"
    using strip_by_ends [of isspace "replace_str (replace_str q [10] [32]) [32, 32] [32]"]
    by (simp add: p strip_ws_def)
  then have "hd p \<notin> {32, 9, 10, 13}" by (auto simp: isspace_def)
  with ne have "\<not> list_all (\<lambda>c. c \<in> {32, 9, 10, 13}) p" by (cases p) auto
  then show ?thesis by (simp add: strip_by_Nil_iff)
qed

lemma close_page_not_blank:
  assumes "pages_not_blank pages"
    and "\<forall>p \<in> set current_content. strip_by (\<lambda>c. c \<in> {32, 9, 10, 13}) p \<noteq> []"
  shows "pages_not_blank (close_page E pages current_page current_content)"
  using assms by (auto simp: close_page_def pages_not_blank_def)

lemma collect_pages_not_blank:
  assumes "pages_not_blank pages"
    and "\<forall>p \<in> set current_content. strip_by (\<lambda>c. c \<in> {32, 9, 10, 13}) p \<noteq> []"
  shows "pages_not_blank (collect_pages E pages current_page current_content parts)"
  using assms
proof (induction parts arbitrary: pages current_page current_content)
  case Nil
  then show ?case by (simp add: close_page_not_blank)
next
  case (Cons part parts)
  show ?case
  proof (cases "page_match part")
    case (Some group1)
    have "pages_not_blank (collect_pages E (close_page E pages current_page current_content)
             (Some group1) [] parts)"
      using Cons.prems by (intro Cons.IH close_page_not_blank) simp_all
    with Some show ?thesis by simp
  next
    case None
    have "\<forall>p \<in> set (current_content @ paragraphs part).
            strip_by (\<lambda>c. c \<in> {32, 9, 10, 13}) p \<noteq> []"
      using Cons.prems(2) paragraphs_not_blank [of _ part] by auto
    with Cons.prems have
      "pages_not_blank (collect_pages E pages current_page (current_content @ paragraphs part) parts)"
      "pages_not_blank (collect_pages E pages current_page current_content parts)"
      by (intro Cons.IH; simp)+
    with None show ?thesis by simp
  qed
qed

lemma first_page_heuristic_not_blank:
  assumes "pages_not_blank pages"
  shows "pages_not_blank (first_page_heuristic pages)"
proof (cases pages)
  case Nil
  with assms show ?thesis by (simp add: first_page_heuristic_def)
next
  case c1: (Cons p0 r1)
  show ?thesis
  proof (cases r1)
    case Nil
    with c1 assms show ?thesis by (simp add: first_page_heuristic_def)
  next
    case c2: (Cons p1 r2)
    with c1 assms show ?thesis
      by (auto simp: first_page_heuristic_def pages_not_blank_def)
  qed
qed

lemma parse_document_not_blank: "pages_not_blank (parse_document E d)"
  unfolding parse_document_def split_pages_def
  by (intro first_page_heuristic_not_blank collect_pages_not_blank) (simp_all add: pages_not_blank_def)

text \<open>
  Claim C7, amended. A paragraph string that is empty after trimming does not give an
  empty fragment: nothing but the line-break marker is left of it, \<open><lb/>\<close> (when the
  transliteration of the empty string is empty and the parser accepts
  \<open><p><lb/></p>\<close>). The assembler omits a fragment only when it is the empty string,
  so the page of such a paragraph would hold the marker behind its page break. A blank
  paragraph of a document is left out all the same, by the parser: no page that
  \<^verbatim>\<open>parse_document\<close> returns holds such a paragraph.
\<close>

theorem blank_paragraph_gives_line_break:
  assumes "strip_by (\<lambda>c. c \<in> {32, 9, 10, 13}) s = []"
    and "ACIP_transform E [] False = []"
    and "xml_parses E (str ''<p><lb/></p>'')"
  shows "convert_line E s mode = str ''<lb/>''
         \<and> page_lines E mode \<lparr>number = n, content = [s]\<rparr>
             = [str ''<pb'' @ pnum_attribute \<lparr>number = n, content = [s]\<rparr> @ str ''/>'', str ''<lb/>'']
         \<and> (\<forall>pg \<in> set (parse_document E d). s \<notin> set (content pg))"
proof -
  have c: "convert_line E s mode = str ''<lb/>''"
    using convert_line_blank [OF assms(1,2)] assms(3) by simp
  have "str ''<lb/>'' \<noteq> []" by (simp add: str_def)
  with c is_blank_blank [OF assms(1)] have
    "page_lines E mode \<lparr>number = n, content = [s]\<rparr>
       = [str ''<pb'' @ pnum_attribute \<lparr>number = n, content = [s]\<rparr> @ str ''/>'', str ''<lb/>'']"
    by (simp add: page_lines_def)
  moreover have "\<forall>pg \<in> set (parse_document E d). s \<notin> set (content pg)"
    using parse_document_not_blank [of E d] assms(1) by (auto simp: pages_not_blank_def)
  ultimately show ?thesis using c by simp
qed

lemma plain_env_empty: "ACIP_transform plain_env [] False = []"
  by (simp add: plain_eval string_eval)

lemma plain_parses_lb: "xml_parses plain_env (str ''<p><lb/></p>'')"
  by (simp add: plain_eval string_eval)

theorem blank_paragraph_gives_line_break_witness:
  \<open>convert_line plain_env (str ''  '') 2 = str ''<lb/>''
   \<and> page_lines plain_env 2 \<lparr>number = Some (str ''3b''), content = [str ''  '']\<rparr>
       = [str ''<pb n="3b"/>'', str ''<lb/>'']\<close>
proof -
  have b: "strip_by (\<lambda>c. c \<in> {32, 9, 10, 13}) (str ''  '') = []"
    by (simp add: string_eval)
  show ?thesis
    using blank_paragraph_gives_line_break
      [OF b plain_env_empty plain_parses_lb, of 2 "Some (str ''3b'')" "[]"]
    by (simp add: pnum_attribute_def str_def)
qed

text \<open>
  Claim C7, as stated, fails: for the paragraph of one blank the fragment is not empty,
  and the body of the document holds a line-break marker for it.
\<close>

theorem blank_paragraph_not_omitted:
  "convert_line plain_env (str '' '') 2 \<noteq> []
   \<and> body_lines plain_env 2 [\<lparr>number = None, content = [str '' '']\<rparr>]
       = [str ''<pb/>'', str ''<lb/>'']"
proof -
  have b: "strip_by (\<lambda>c. c \<in> {32, 9, 10, 13}) (str '' '') = []"
    by (simp add: string_eval)
  have c: "convert_line plain_env (str '' '') 2 = str ''<lb/>''"
    using convert_line_blank [OF b plain_env_empty, of 2] plain_parses_lb by simp
  have n: "str ''<lb/>'' \<noteq> []" by (simp add: str_def)
  show ?thesis
    using is_blank_blank [OF b, of None] n
    by (simp add: c body_lines_def page_lines_def pnum_attribute_def) (simp add: str_def)
qed

section \<open>The fallback\<close>

lemmas parts_eval =
  convert_text_components_def tag_pattern_def group_until_def should_skip_tag_def
  ends_in_shad_def

lemma annotate_overlapping:
  \<open>annotate_line plain_env (str ''(a [b) c] d '') 2 =
     str ''<lb/><hi rend="small">a <unclear reason="illegible" cert="low">b</hi> c</unclear> d ''\<close>
  by (simp add: line_eval string_eval plain_env_def)

lemma prepare_overlapping: "prepare_line plain_env (str ''(a [b) c] d'') = str ''(a [b) c] d ''"
  by (simp add: prepare_line_def isalpha_def string_eval)

lemma markup_overlapping:
  \<open>markup_line plain_env (str ''(a [b) c] d '') 2 =
     str ''<lb/><hi rend="small">a'' @ [0x0F0B]
       @ str ''<unclear reason="illegible" cert="low">b</hi>'' @ [0x0F0B, 0x0F0B]
       @ str ''c</unclear>'' @ [0x0F0B, 0x0F0B] @ str ''d'' @ [0x0F0B]\<close>
  unfolding markup_line_def annotate_overlapping
  by (simp add: parts_eval plain_eval escape_def string_eval)

lemma overlapping_does_not_parse:
  "\<not> is_valid_xml plain_env
       (str ''<p>'' @ markup_line plain_env (prepare_line plain_env (str ''(a [b) c] d'')) 2 @ str ''</p>'')"
  unfolding prepare_overlapping markup_overlapping
  by (simp add: plain_eval string_eval)

lemma fallback_overlapping:
  "escape (strip_ws (ACIP_transform plain_env (str ''(a [b) c] d '') False))
     = str ''(a'' @ [0x0F0B] @ str ''[b)'' @ [0x0F0B] @ str ''c]'' @ [0x0F0B] @ str ''d'' @ [0x0F0B]"
  by (simp add: plain_eval escape_def string_eval)

text \<open>
  Claim C5, amended. When the candidate does not parse, the result is computed from
  \<^verbatim>\<open>original_line_str\<close>, which is the paragraph after trimming and after the blank
  is added behind a final letter or apostrophe (and before bracket balancing, the
  line-break marker and all rewrite rules): it is transliterated as a whole, white
  space around the transliteration is removed, and the rest is escaped.
\<close>

theorem convert_line_fallback:
  assumes "\<not> is_valid_xml E (str ''<p>'' @ markup_line E (prepare_line E s) mode @ str ''</p>'')"
  shows "convert_line E s mode = escape (strip_ws (ACIP_transform E (prepare_line E s) False))"
  using assms by (simp add: convert_line_def Let_def)

theorem convert_line_fallback_witness:
  "\<not> is_valid_xml plain_env
       (str ''<p>'' @ markup_line plain_env (prepare_line plain_env (str ''(a [b) c] d'')) 2 @ str ''</p>'')
   \<and> convert_line plain_env (str ''(a [b) c] d'') 2
       = str ''(a'' @ [0x0F0B] @ str ''[b)'' @ [0x0F0B] @ str ''c]'' @ [0x0F0B] @ str ''d'' @ [0x0F0B]"
  using convert_line_fallback [OF overlapping_does_not_parse] overlapping_does_not_parse
  by (simp add: prepare_overlapping fallback_overlapping)

text \<open>
  Claim C5, as stated, fails: the fallback does not start from the paragraph as it came
  in. For \<open>(a [b) c] d\<close> the candidate is not well formed (\<open>hi\<close> and \<open>unclear\<close>
  overlap); the result ends in the tsheg of the blank added behind \<open>d\<close>, which the
  transliteration of the untouched paragraph does not have.
\<close>

theorem fallback_not_from_untouched_input:
  "convert_line plain_env (str ''(a [b) c] d'') 2
     = str ''(a'' @ [0x0F0B] @ str ''[b)'' @ [0x0F0B] @ str ''c]'' @ [0x0F0B] @ str ''d'' @ [0x0F0B]
   \<and> spec_fallback plain_env (str ''(a [b) c] d'')
     = str ''(a'' @ [0x0F0B] @ str ''[b)'' @ [0x0F0B] @ str ''c]'' @ [0x0F0B] @ str ''d''
   \<and> convert_line plain_env (str ''(a [b) c] d'') 2 \<noteq> spec_fallback plain_env (str ''(a [b) c] d'')"
proof -
  have c: "convert_line plain_env (str ''(a [b) c] d'') 2
     = str ''(a'' @ [0x0F0B] @ str ''[b)'' @ [0x0F0B] @ str ''c]'' @ [0x0F0B] @ str ''d'' @ [0x0F0B]"
    using overlapping_does_not_parse by (simp add: convert_line_def Let_def prepare_overlapping fallback_overlapping)
  have f: "spec_fallback plain_env (str ''(a [b) c] d'')
     = str ''(a'' @ [0x0F0B] @ str ''[b)'' @ [0x0F0B] @ str ''c]'' @ [0x0F0B] @ str ''d''"
    by (simp add: spec_fallback_def plain_eval escape_def string_eval)
  show ?thesis unfolding c f by (simp add: str_def)
qed

section \<open>The choice/correction example\<close>

lemma escape_Nil: "escape [] = []"
  by (simp add: escape_def string_eval)

lemma annotate_rgyal:
  \<open>annotate_line E (str ''rgyal [rgyas?]'') 1 =
     str ''<choice><orig><lb/>rgyal</orig><corr cert="low">rgyas</corr></choice>''\<close>
  by (simp add: line_eval string_eval)


lemma prepare_rgyal: "prepare_line E (str ''rgyal [rgyas?]'') = str ''rgyal [rgyas?]''"
  by (simp add: prepare_line_def isalpha_def string_eval)

lemma markup_rgyal:
  assumes "ACIP_transform E [] False = []"
  shows "markup_line E (str ''rgyal [rgyas?]'') 1 = rgyal_fragment E"
  unfolding markup_line_def annotate_rgyal rgyal_fragment_def
  by (simp add: parts_eval string_eval assms escape_Nil)

lemma strip_ws_rgyal_fragment: "strip_ws (rgyal_fragment E) = rgyal_fragment E"
  unfolding strip_ws_def rgyal_fragment_def
  by (rule strip_by_id) (simp_all add: str_def isspace_def)

text \<open>
  For every environment in which the transliteration of the empty string is empty and
  the parser accepts the fragment, this is what the paragraph gives.
\<close>

lemma convert_line_rgyal:
  assumes "ACIP_transform E [] False = []"
    and "xml_parses E (str ''<p>'' @ rgyal_fragment E @ str ''</p>'')"
  shows "convert_line E (str ''rgyal [rgyas?]'') 1 = rgyal_fragment E"
  using assms(2)
  by (simp add: convert_line_def prepare_rgyal Let_def markup_rgyal [OF assms(1)]
      strip_ws_rgyal_fragment is_valid_xml_def)

lemma rgyal_fragment_plain:
  \<open>rgyal_fragment plain_env =
     str ''<choice><orig><lb/>rgyal</orig><corr cert="low">rgyas</corr></choice>''\<close>
  by (simp add: rgyal_fragment_def plain_eval escape_def string_eval)

lemma plain_parses_rgyal_fragment:
  "xml_parses plain_env (str ''<p>'' @ rgyal_fragment plain_env @ str ''</p>'')"
  unfolding rgyal_fragment_plain by (simp add: plain_eval string_eval)

text \<open>The same correction behind another word of the line.\<close>

lemma prepare_ka_rgyal: "prepare_line E (str ''ka rgyal [rgyas?]'') = str ''ka rgyal [rgyas?]''"
  by (simp add: prepare_line_def isalpha_def string_eval)

lemma annotate_ka_rgyal:
  \<open>annotate_line E (str ''ka rgyal [rgyas?]'') 1 =
     str ''<lb/>ka<choice><orig>rgyal</orig><corr cert="low">rgyas</corr></choice>''\<close>
  by (simp add: line_eval string_eval)

lemma markup_ka_rgyal:
  \<open>markup_line plain_env (str ''ka rgyal [rgyas?]'') 1 =
     str ''<lb/>ka<choice><orig>rgyal</orig><corr cert="low">rgyas</corr></choice>''\<close>
  unfolding markup_line_def annotate_ka_rgyal
  by (simp add: parts_eval plain_eval escape_def string_eval)

lemma convert_line_ka_rgyal:
  \<open>convert_line plain_env (str ''ka rgyal [rgyas?]'') 1 =
     str ''<lb/>ka<choice><orig>rgyal</orig><corr cert="low">rgyas</corr></choice>''\<close>
proof -
  have v: \<open>is_valid_xml plain_env
      (str ''<p>'' @ str ''<lb/>ka<choice><orig>rgyal</orig><corr cert="low">rgyas</corr></choice>''
         @ str ''</p>'')\<close>
    by (simp add: plain_eval string_eval)
  have s: \<open>strip_ws (str ''<lb/>ka<choice><orig>rgyal</orig><corr cert="low">rgyas</corr></choice>'')
      = str ''<lb/>ka<choice><orig>rgyal</orig><corr cert="low">rgyas</corr></choice>''\<close>
    by (simp add: string_eval)
  show ?thesis
    using v by (simp add: convert_line_def Let_def prepare_ka_rgyal markup_ka_rgyal) (simp add: s)
qed

text \<open>
  Claim C6. Under the choice/correction policy the paragraph \<open>rgyal [rgyas?]\<close> is meant
  to give a \<open>choice\<close> element whose \<open>orig\<close> child has the text of the word and whose
  \<open>corr\<close> child has the text of the correction, with \<open>cert="low"\<close> and the question
  mark gone. The \<open>corr\<close> child is as claimed, the \<open>orig\<close> child is not: the pattern
  takes everything from the start of the line to the bracket as the original word, and
  the line starts with the line-break marker put there before, so \<open>orig\<close> holds
  \<open><lb/>rgyal\<close>. Where a word stands in front, as in \<open>ka rgyal [rgyas?]\<close>, the same
  rule gives \<open>orig\<close> the word alone and leaves the marker outside the \<open>choice\<close>.
\<close>

theorem choice_orig_holds_line_break:
  \<open>convert_line plain_env (str ''rgyal [rgyas?]'') 1 =
     str ''<choice><orig><lb/>rgyal</orig><corr cert="low">rgyas</corr></choice>''
   \<and> \<not> contains_str (convert_line plain_env (str ''rgyal [rgyas?]'') 1) (str ''<orig>rgyal</orig>'')
   \<and> convert_line plain_env (str ''ka rgyal [rgyas?]'') 1 =
     str ''<lb/>ka<choice><orig>rgyal</orig><corr cert="low">rgyas</corr></choice>''\<close>
proof -
  have c: \<open>convert_line plain_env (str ''rgyal [rgyas?]'') 1 =
     str ''<choice><orig><lb/>rgyal</orig><corr cert="low">rgyas</corr></choice>''\<close>
    using convert_line_rgyal [OF plain_env_empty plain_parses_rgyal_fragment]
    by (simp add: rgyal_fragment_plain)
  show ?thesis unfolding c convert_line_ka_rgyal by (simp add: str_def)
qed

section \<open>Text behind an English-marked tag\<close>

text \<open>
  Claim C4, amended. A text token that follows a tag with the English-language marker
  is not transliterated. What is appended for it is the token, with one blank in front
  when \<open>last_is_shad\<close> is still set from the text before the tag, and then escaped;
  the tokens behind it are converted with \<open>skip\<close> set and \<open>last_is_shad\<close> cleared.
\<close>

theorem english_text_token:
  assumes "tag_pattern tag \<noteq> None" and "should_skip_tag tag" and "tag_pattern txt = None"
  shows "convert_parts E skip last_is_shad (pre @ tag # txt # post) =
           convert_parts E skip last_is_shad pre
             @ [tag, escape ((if shad_after skip last_is_shad pre then [32] else []) @ txt)]
             @ convert_parts E True False post"
  using assms
proof (induction pre arbitrary: skip last_is_shad)
  case Nil
  then show ?case by simp
next
  case (Cons part pre)
  show ?case
  proof (cases "tag_pattern part = None")
    case True
    with Cons.IH [OF Cons.prems, of skip "\<not> skip \<and> ends_in_shad part"] show ?thesis
      by (simp add: Let_def)
  next
    case False
    with Cons.IH [OF Cons.prems, of "should_skip_tag part" last_is_shad] show ?thesis
      by simp
  qed
qed

lemma note_tag_is_tag: "tag_pattern note_open \<noteq> None"
  by (simp add: tag_pattern_def group_until_def note_open_def str_def)

lemma note_tag_is_english: "should_skip_tag note_open"
  by (simp add: should_skip_tag_def note_open_def str_def)

theorem english_text_token_witness:
  "convert_parts plain_env False False [str ''a,'', note_open, str ''R&D'', note_close, []]
     = [str ''a,'', note_open, str '' R&amp;D'', note_close, []]"
proof -
  have t: "tag_pattern (str ''R&D'') = None"
    by (simp add: tag_pattern_def str_def)
  show ?thesis
    using english_text_token [OF note_tag_is_tag note_tag_is_english t,
        of plain_env False False "[str ''a,'']" "[note_close, []]"]
    by (simp add: tag_pattern_def group_until_def should_skip_tag_def ends_in_shad_def
        note_close_def plain_eval escape_def string_eval)
qed

text \<open>
  Claim C4, as stated, fails: the text \<open>R&D\<close> of an English note comes out as
  \<open>R&amp;D\<close>, and with a blank in front when the text before the note ends in a
  comma.
\<close>

theorem english_text_not_identical:
  "convert_text_components plain_env (str ''a,'' @ note_open @ str ''R&D'' @ note_close)
     = str ''a,'' @ note_open @ str '' R&amp;D'' @ note_close
   \<and> convert_text_components plain_env (note_open @ str ''R&D'' @ note_close)
     = note_open @ str ''R&amp;D'' @ note_close
   \<and> \<not> contains_str (convert_text_components plain_env (note_open @ str ''R&D'' @ note_close))
         (str ''R&D'')"
proof -
  have a: "convert_text_components plain_env (str ''a,'' @ note_open @ str ''R&D'' @ note_close)
     = str ''a,'' @ note_open @ str '' R&amp;D'' @ note_close"
    by (simp add: parts_eval note_open_def note_close_def plain_eval escape_def string_eval)
  have b: "convert_text_components plain_env (note_open @ str ''R&D'' @ note_close)
     = note_open @ str ''R&amp;D'' @ note_close"
    by (simp add: parts_eval note_open_def note_close_def plain_eval escape_def string_eval)
  show ?thesis unfolding a b by (simp add: note_open_def note_close_def str_def)
qed

section \<open>Every paragraph yields a fragment that parses\<close>

lemma strip_by_set: "set (strip_by P s) \<subseteq> set s"
proof -
  have "set (dropWhile P (rev (dropWhile P s))) \<subseteq> set (rev (dropWhile P s))"
    by (meson set_dropWhileD subsetI)
  moreover have "set (dropWhile P s) \<subseteq> set s"
    by (meson set_dropWhileD subsetI)
  ultimately show ?thesis
    by (auto simp: strip_by_def lstrip_by_def rstrip_by_def)
qed

lemma sanitize_keep_xml_char: "sanitize_keep c \<Longrightarrow> xml_char c"
  by (auto simp: sanitize_keep_def xml_char_def)

lemma prepare_line_keep:
  assumes "list_all sanitize_keep s"
  shows "list_all sanitize_keep (prepare_line E s)"
proof -
  let ?t = "strip_by (\<lambda>c. c \<in> {32, 9, 10, 13}) s"
  have "set ?t \<subseteq> set s" by (rule strip_by_set)
  with assms have "list_all sanitize_keep ?t" by (auto simp: list_all_iff)
  moreover have "sanitize_keep 32" by (simp add: sanitize_keep_def)
  ultimately show ?thesis by (simp add: prepare_line_def Let_def)
qed

lemma ACIP_transform_xml_char:
  assumes "transliteration_contract E" and "list_all sanitize_keep s"
  shows "list_all xml_char (ACIP_transform E s b)"
proof -
  let ?u = "toUnicode E (ACIPtoEWTS E s)"
  from assms have u: "list_all xml_char ?u" by (simp add: transliteration_contract_def)
  have "set (replace_str ?u [0x0F44, 0x0F0D] [0x0F44, 0x0F0B, 0x0F0D])
          \<subseteq> set ?u \<union> set [0x0F44, 0x0F0B, 0x0F0D]"
    by (rule replace_str_set)
  moreover have "list_all xml_char [0x0F44, 0x0F0B, 0x0F0D, 32]" by (simp add: xml_char_def)
  ultimately have r: "list_all xml_char (replace_str ?u [0x0F44, 0x0F0D] [0x0F44, 0x0F0B, 0x0F0D])"
    using u by (auto simp: list_all_iff)
  have "xml_char 0x0F0B" "xml_char 32" by (simp_all add: xml_char_def)
  with r show ?thesis by (simp add: ACIP_transform_def Let_def)
qed

text \<open>
  The paragraphs that the assembler hands to \<^verbatim>\<open>convert_line\<close> come from the parser,
  run on the sanitized document; they hold only characters that the sanitizer keeps.
\<close>

lemma balance_parentheses_set:
  "set (balance_parentheses s c1 c2) \<subseteq> set s \<union> set c1 \<union> set c2"
  by (auto simp: balance_parentheses_def Let_def)

lemma re_split_set:
  assumes matcher: "\<And>s g rest. m s = Some (g, rest) \<Longrightarrow> set g \<subseteq> set s \<and> set rest \<subseteq> set s"
  shows "p \<in> set (re_split m cur s) \<Longrightarrow> set p \<subseteq> set cur \<union> set s"
proof (induction "length s" arbitrary: cur s rule: less_induct)
  case less
  show ?case
  proof (cases s)
    case Nil
    with less.prems show ?thesis by simp
  next
    case (Cons c cs)
    have step: "set p \<subseteq> set cur \<union> set s" if "p \<in> set (re_split m (cur @ [c]) cs)"
    proof -
      have "set p \<subseteq> set (cur @ [c]) \<union> set cs"
        using less.hyps [of cs "cur @ [c]"] that Cons by simp
      with Cons show ?thesis by auto
    qed
    show ?thesis
    proof (cases "m (c # cs)")
      case None
      with less.prems Cons step show ?thesis by simp
    next
      case (Some a)
      obtain g rest where a: "a = (g, rest)" by (cases a)
      from Some a have "m (c # cs) = Some (g, rest)" by simp
      from matcher [OF this] have sub: "set g \<subseteq> set (c # cs)" "set rest \<subseteq> set (c # cs)"
        by simp_all
      show ?thesis
      proof (cases "length rest < length (c # cs)")
        case True
        with less.prems Cons Some a
        have "p = cur \<or> p = g \<or> p \<in> set (re_split m [] rest)" by auto
        moreover have "set p \<subseteq> set rest" if "p \<in> set (re_split m [] rest)"
          using less.hyps [of rest "[]"] True Cons that by simp
        ultimately show ?thesis using sub Cons by auto
      next
        case False
        with less.prems Cons Some a step show ?thesis by simp
      qed
    qed
  qed
qed

lemma marker_pattern_set:
  "marker_pattern s = Some (g, rest) \<Longrightarrow> set g \<subseteq> set s \<and> set rest \<subseteq> set s"
  by (auto simp: marker_pattern_def split: if_splits dest: set_takeWhileD set_dropWhileD)

lemma split_str_set: "p \<in> set (split_str sep cur s) \<Longrightarrow> set p \<subseteq> set cur \<union> set s"
proof (induction sep cur s rule: split_str.induct)
  case (1 sep cur)
  then show ?case by simp
next
  case (2 sep cur c cs)
  show ?case
  proof (cases "sep \<noteq> [] \<and> prefix sep (c # cs)")
    case True
    with 2(3) have "p = cur \<or> p \<in> set (split_str sep [] (drop (length sep) (c # cs)))" by auto
    moreover have "set p \<subseteq> set (drop (length sep) (c # cs))"
      if "p \<in> set (split_str sep [] (drop (length sep) (c # cs)))"
      using 2(1) [OF True that] by simp
    moreover have "set (drop (length sep) (c # cs)) \<subseteq> set (c # cs)" by (rule set_drop_subset)
    ultimately show ?thesis by auto
  next
    case False
    with 2 show ?thesis by auto
  qed
qed

lemma paragraphs_keep:
  assumes "list_all sanitize_keep part" and "p \<in> set (paragraphs part)"
  shows "list_all sanitize_keep p"
proof -
  from assms(2) obtain q where q: "q \<in> set (split_str [10, 10] [] part)"
    and p: "p = strip_ws (replace_str (replace_str q [10] [32]) [32, 32] [32])"
    by (auto simp: paragraphs_def)
  from split_str_set [OF q] have "set q \<subseteq> set part" by simp
  moreover have "set (replace_str q [10] [32]) \<subseteq> set q \<union> set [32]" by (rule replace_str_set)
  moreover have "set (replace_str (replace_str q [10] [32]) [32, 32] [32])
                   \<subseteq> set (replace_str q [10] [32]) \<union> set [32]" by (rule replace_str_set)
  moreover have "set p \<subseteq> set (replace_str (replace_str q [10] [32]) [32, 32] [32])"
    unfolding p strip_ws_def by (rule strip_by_set)
  ultimately have "set p \<subseteq> insert 32 (set part)" by auto
  moreover have "sanitize_keep 32" by (simp add: sanitize_keep_def)
  ultimately show ?thesis using assms(1) by (auto simp: list_all_iff)
qed

lemma close_page_keep:
  assumes "pages_keep pages" and "\<forall>p \<in> set current_content. list_all sanitize_keep p"
  shows "pages_keep (close_page E pages current_page current_content)"
  using assms by (auto simp: close_page_def pages_keep_def)

lemma collect_pages_keep:
  assumes "pages_keep pages" and "\<forall>p \<in> set current_content. list_all sanitize_keep p"
    and "\<forall>part \<in> set parts. list_all sanitize_keep part"
  shows "pages_keep (collect_pages E pages current_page current_content parts)"
  using assms
proof (induction parts arbitrary: pages current_page current_content)
  case Nil
  then show ?case by (simp add: close_page_keep)
next
  case (Cons part parts)
  show ?case
  proof (cases "page_match part")
    case (Some group1)
    have "pages_keep (collect_pages E (close_page E pages current_page current_content)
             (Some group1) [] parts)"
      using Cons.prems by (intro Cons.IH close_page_keep) simp_all
    with Some show ?thesis by simp
  next
    case None
    have "\<forall>p \<in> set (current_content @ paragraphs part). list_all sanitize_keep p"
      using Cons.prems(2,3) paragraphs_keep [of part] by auto
    with Cons.prems have
      "pages_keep (collect_pages E pages current_page (current_content @ paragraphs part) parts)"
      "pages_keep (collect_pages E pages current_page current_content parts)"
      by (intro Cons.IH; simp)+
    with None show ?thesis by simp
  qed
qed

lemma first_page_heuristic_keep:
  assumes "pages_keep pages"
  shows "pages_keep (first_page_heuristic pages)"
proof (cases pages)
  case Nil
  with assms show ?thesis by (simp add: first_page_heuristic_def)
next
  case c1: (Cons p0 r1)
  show ?thesis
  proof (cases r1)
    case Nil
    with c1 assms show ?thesis by (simp add: first_page_heuristic_def)
  next
    case c2: (Cons p1 r2)
    with c1 assms show ?thesis
      by (auto simp: first_page_heuristic_def pages_keep_def)
  qed
qed

lemma parse_document_paragraphs_sanitized:
  assumes "pg \<in> set (parse_document E (sanitize_str d))" and "p \<in> set (content pg)"
  shows "list_all sanitize_keep p"
proof -
  let ?b = "balance_parentheses (sanitize_str d) (str ''('') (str '')'')"
  have "set ?b \<subseteq> set (sanitize_str d) \<union> set (str ''('') \<union> set (str '')'')"
    by (rule balance_parentheses_set)
  moreover have "sanitize_keep 40" "sanitize_keep 41" by (simp_all add: sanitize_keep_def)
  ultimately have b: "\<forall>c \<in> set ?b. sanitize_keep c"
    using sanitize_str_keep [of d] by (auto simp: str_def)
  have "\<forall>part \<in> set (re_split marker_pattern [] ?b). list_all sanitize_keep part"
  proof
    fix part assume "part \<in> set (re_split marker_pattern [] ?b)"
    then have "set part \<subseteq> set [] \<union> set ?b"
      by (rule re_split_set [rotated]) (rule marker_pattern_set)
    with b show "list_all sanitize_keep part" by (auto simp: list_all_iff)
  qed
  then have "pages_keep (split_pages E (sanitize_str d))"
    unfolding split_pages_def by (intro collect_pages_keep) (simp_all add: pages_keep_def)
  then have "pages_keep (parse_document E (sanitize_str d))"
    unfolding parse_document_def by (rule first_page_heuristic_keep)
  with assms show ?thesis by (auto simp: pages_keep_def)
qed

text \<open>A paragraph that holds a character the sanitizer would have removed.\<close>

lemma prepare_nul: "prepare_line plain_env [0] = [0]"
  by (simp add: prepare_line_def isalpha_def string_eval)

lemma markup_nul: "markup_line plain_env [0] 2 = str ''<lb/>'' @ [0]"
  by (simp add: line_eval plain_eval string_eval)

lemma fallback_nul: "escape (strip_ws (ACIP_transform plain_env [0] False)) = [0]"
  by (simp add: plain_eval escape_def string_eval)

text \<open>
  Claim C1, as stated, fails: not every string gives a fragment that parses. The
  fallback is returned as it is, it is not validated. For the paragraph of the one
  character U+0000 the candidate does not parse, and the fallback is that character
  again, which no XML document may hold.
\<close>

theorem unsanitized_paragraph_not_well_formed:
  "\<not> is_valid_xml plain_env (str ''<p>'' @ markup_line plain_env (prepare_line plain_env [0]) 2 @ str ''</p>'')
   \<and> convert_line plain_env [0] 2 = [0]
   \<and> \<not> is_valid_xml plain_env (str ''<p>'' @ convert_line plain_env [0] 2 @ str ''</p>'')"
proof -
  have i: "\<not> is_valid_xml plain_env (str ''<p>'' @ markup_line plain_env (prepare_line plain_env [0]) 2 @ str ''</p>'')"
    unfolding prepare_nul markup_nul by (simp add: plain_eval string_eval)
  then have c: "convert_line plain_env [0] 2 = [0]"
    by (simp add: convert_line_def Let_def prepare_nul fallback_nul)
  have "\<not> is_valid_xml plain_env (str ''<p>'' @ [0] @ str ''</p>'')"
    by (simp add: plain_eval string_eval)
  with i c show ?thesis by simp
qed

text \<open>
  Claim C1, amended. \<^verbatim>\<open>convert_line\<close> has no failing path of its own (the two index
  accesses are guarded, every exception of the parsers is caught in
  \<^verbatim>\<open>is_valid_xml\<close>), so the model is a total function. For a paragraph of characters
  that the sanitizer keeps, as every paragraph of a sanitized document is, its result
  parses inside \<open><p>\<close>: either the candidate parsed, and the result is the candidate
  without the white space around it, or it did not, and the result is escaped text. The
  first needs the parser's contract, the second also that of the transliteration. When
  the candidate does not parse, the result is the fallback.
\<close>

theorem convert_line_well_formed:
  assumes "parser_contract E" and "transliteration_contract E" and "list_all sanitize_keep s"
  shows "is_valid_xml E (str ''<p>'' @ convert_line E s mode @ str ''</p>'')
         \<and> (\<not> is_valid_xml E (str ''<p>'' @ markup_line E (prepare_line E s) mode @ str ''</p>'')
              \<longrightarrow> convert_line E s mode = escape (strip_ws (ACIP_transform E (prepare_line E s) False)))"
proof (cases "is_valid_xml E (str ''<p>'' @ markup_line E (prepare_line E s) mode @ str ''</p>'')")
  case True
  then have "convert_line E s mode = strip_ws (markup_line E (prepare_line E s) mode)"
    by (simp add: convert_line_def Let_def)
  moreover from True assms(1)
  have "xml_parses E (str ''<p>'' @ strip_ws (markup_line E (prepare_line E s) mode) @ str ''</p>'')"
    by (simp add: parser_contract_def is_valid_xml_def)
  ultimately show ?thesis using True by (simp add: is_valid_xml_def)
next
  case False
  then have c: "convert_line E s mode = escape (strip_ws (ACIP_transform E (prepare_line E s) False))"
    by (simp add: convert_line_def Let_def)
  have "list_all xml_char (ACIP_transform E (prepare_line E s) False)"
    using assms(2) prepare_line_keep [OF assms(3)] by (rule ACIP_transform_xml_char)
  moreover have "set (strip_ws (ACIP_transform E (prepare_line E s) False))
                   \<subseteq> set (ACIP_transform E (prepare_line E s) False)"
    unfolding strip_ws_def by (rule strip_by_set)
  ultimately have "list_all xml_char (strip_ws (ACIP_transform E (prepare_line E s) False))"
    by (auto simp: list_all_iff)
  with assms(1) show ?thesis
    by (simp add: c parser_contract_def is_valid_xml_def)
qed

text \<open>The reference environment meets both contracts.\<close>

lemma plain_parses_wrapped:
  "plain_parses (str ''<p>'' @ x @ str ''</p>'') \<longleftrightarrow> scan_content x = Text []"
proof -
  have "suffix (str ''</p>'') (str ''<p>'' @ x @ str ''</p>'')"
    by (metis append.assoc suffixI)
  moreover have "take (length (str ''<p>'' @ x @ str ''</p>'') - 7) (drop 3 (str ''<p>'' @ x @ str ''</p>'')) = x"
    by (simp add: str_def)
  moreover have "prefix (str ''<p>'') (str ''<p>'' @ x @ str ''</p>'')" by simp
  moreover have "7 \<le> length (str ''<p>'' @ x @ str ''</p>'')" by (simp add: str_def)
  ultimately show ?thesis unfolding plain_parses_def by simp
qed

lemma scan_Bad: "foldl scan_step Bad s = Bad"
  by (induction s) simp_all

lemma isspace_plain: "isspace c \<Longrightarrow> c \<noteq> 60 \<and> c \<noteq> 38 \<and> c \<noteq> 62 \<and> c \<noteq> 59 \<and> \<not> (97 \<le> c \<and> c \<le> 122)"
  by (auto simp: isspace_def)

lemma scan_leading_blanks:
  assumes "list_all isspace ws" and "foldl scan_step (Text st) (ws @ y) = Text []"
  shows "foldl scan_step (Text st) y = Text []"
  using assms
proof (induction ws)
  case Nil
  then show ?case by simp
next
  case (Cons c ws)
  from Cons.prems(1) have c: "c \<noteq> 60" "c \<noteq> 38" using isspace_plain [of c] by simp_all
  show ?case
  proof (cases "xml_char c")
    case True
    with c Cons show ?thesis by simp
  next
    case False
    with c Cons.prems(2) show ?thesis by (simp add: scan_Bad)
  qed
qed

lemma scan_step_blank:
  assumes "isspace c" and "scan_step \<sigma> c = Text []"
  shows "\<sigma> = Text []"
  using assms isspace_plain [of c]
  by (cases \<sigma>) (auto split: if_splits)

lemma scan_trailing_blanks:
  assumes "list_all isspace ws" and "foldl scan_step \<sigma> ws = Text []"
  shows "\<sigma> = Text []"
  using assms
proof (induction ws arbitrary: \<sigma>)
  case Nil
  then show ?case by simp
next
  case (Cons c ws)
  from Cons have "scan_step \<sigma> c = Text []" by simp
  with Cons.prems(1) show ?case using scan_step_blank [of c \<sigma>] by simp
qed

lemma scan_content_strip_ws:
  assumes "scan_content x = Text []"
  shows "scan_content (strip_ws x) = Text []"
proof -
  let ?y = "dropWhile isspace x"
  have x: "x = takeWhile isspace x @ ?y" by simp
  have "list_all isspace (takeWhile isspace x)"
    by (auto simp: list_all_iff dest: set_takeWhileD)
  moreover from assms x have "foldl scan_step (Text []) (takeWhile isspace x @ ?y) = Text []"
    by (simp add: scan_content_def)
  ultimately have y: "foldl scan_step (Text []) ?y = Text []"
    by (rule scan_leading_blanks)
  let ?z = "rev (dropWhile isspace (rev ?y))"
  let ?w = "rev (takeWhile isspace (rev ?y))"
  have "?z @ ?w = rev (takeWhile isspace (rev ?y) @ dropWhile isspace (rev ?y))"
    by (simp only: rev_append)
  also have "\<dots> = rev (rev ?y)" by (simp only: takeWhile_dropWhile_id)
  finally have yz: "?y = ?z @ ?w" by (simp only: rev_rev_ident)
  have w: "list_all isspace ?w"
    by (auto simp: list_all_iff dest: set_takeWhileD)
  from y yz have "foldl scan_step (foldl scan_step (Text []) ?z) ?w = Text []"
    by (metis foldl_append)
  with w have "foldl scan_step (Text []) ?z = Text []"
    by (rule scan_trailing_blanks)
  then show ?thesis
    by (simp add: scan_content_def strip_ws_def strip_by_def lstrip_by_def rstrip_by_def)
qed

lemma replace_str_single_append:
  "replace_str (a @ b) [c] new = replace_str a [c] new @ replace_str b [c] new"
  by (induction a) (auto simp: replace_str_Nil replace_str_Cons)

lemma escape_append: "escape (a @ b) = escape a @ escape b"
  by (simp add: escape_def str_def replace_str_single_append)

lemma escape_single:
  "escape [c] = (if c = 38 then str ''&amp;'' else if c = 62 then str ''&gt;''
                 else if c = 60 then str ''&lt;'' else [c])"
  by (simp add: escape_def string_eval)

lemma scan_escape_single:
  assumes "xml_char c"
  shows "foldl scan_step (Text st) (escape [c]) = Text st"
  using assms
  by (simp add: escape_single str_def entity_names_def xml_char_def)

lemma scan_escape:
  assumes "list_all xml_char t"
  shows "foldl scan_step (Text st) (escape t) = Text st"
  using assms
proof (induction t)
  case Nil
  then show ?case by (simp add: escape_Nil)
next
  case (Cons c t)
  have "escape (c # t) = escape [c] @ escape t"
    using escape_append [of "[c]" t] by simp
  with Cons show ?case by (simp add: scan_escape_single)
qed

lemma scan_content_escape: "list_all xml_char t \<Longrightarrow> scan_content (escape t) = Text []"
  by (simp add: scan_content_def scan_escape)

lemma plain_env_parser_contract: "parser_contract plain_env"
proof -
  have x: "xml_parses plain_env = plain_parses" by (simp add: plain_env_def)
  show ?thesis
    unfolding parser_contract_def x plain_parses_wrapped
    by (simp add: scan_content_strip_ws scan_content_escape)
qed

lemma plain_toUnicode_xml_char:
  "list_all sanitize_keep s \<Longrightarrow> list_all xml_char (map (\<lambda>c. if c = 32 then 0x0F0B else c) s)"
  by (induction s) (auto simp: sanitize_keep_def xml_char_def)

lemma plain_env_transliteration_contract: "transliteration_contract plain_env"
  by (simp add: transliteration_contract_def plain_env_def plain_toUnicode_xml_char)

theorem convert_line_well_formed_witness:
  "is_valid_xml plain_env (str ''<p>'' @ convert_line plain_env (str ''(a [b) c] d'') 2 @ str ''</p>'')
   \<and> convert_line plain_env (str ''(a [b) c] d'') 2
       = str ''(a'' @ [0x0F0B] @ str ''[b)'' @ [0x0F0B] @ str ''c]'' @ [0x0F0B] @ str ''d'' @ [0x0F0B]"
proof -
  have k: "list_all sanitize_keep (str ''(a [b) c] d'')"
    by (simp add: sanitize_keep_def str_def)
  note w = convert_line_well_formed
    [OF plain_env_parser_contract plain_env_transliteration_contract k, of 2]
  from w have v: "is_valid_xml plain_env
      (str ''<p>'' @ convert_line plain_env (str ''(a [b) c] d'') 2 @ str ''</p>'')"
    by (rule conjunct1)
  from w overlapping_does_not_parse have "convert_line plain_env (str ''(a [b) c] d'') 2
      = escape (strip_ws (ACIP_transform plain_env (prepare_line plain_env (str ''(a [b) c] d'')) False))"
    by blast
  then have "convert_line plain_env (str ''(a [b) c] d'') 2
      = str ''(a'' @ [0x0F0B] @ str ''[b)'' @ [0x0F0B] @ str ''c]'' @ [0x0F0B] @ str ''d'' @ [0x0F0B]"
    by (simp only: prepare_overlapping fallback_overlapping)
  with v show ?thesis by (rule conjI)
qed
end
